theory Spec2Isabelle
  imports Main "HOL-Library.Word"
begin

section \<open>Physical device selection\<close>

text \<open>
  The driver is queried through a device handle; the model keeps, per handle, the answers
  the selection code reads: the features and properties of the device, its queue families
  together with the answer of the surface-support query for each family, the device
  extensions it lists, and the swap chain support of the device for the surface.
\<close>

type_synonym uint32_t = "32 word"

datatype VkPhysicalDeviceType =
    VK_PHYSICAL_DEVICE_TYPE_OTHER
  | VK_PHYSICAL_DEVICE_TYPE_INTEGRATED_GPU
  | VK_PHYSICAL_DEVICE_TYPE_DISCRETE_GPU
  | VK_PHYSICAL_DEVICE_TYPE_VIRTUAL_GPU
  | VK_PHYSICAL_DEVICE_TYPE_CPU

record VkExtent2D =
  width :: uint32_t
  height :: uint32_t

record VkSurfaceCapabilitiesKHR =
  minImageCount :: uint32_t
  maxImageCount :: uint32_t
  currentExtent :: VkExtent2D
  minImageExtent :: VkExtent2D
  maxImageExtent :: VkExtent2D

text \<open>Formats, colour spaces and present modes are the numbers of the enumerations.\<close>

record VkSurfaceFormatKHR =
  format :: nat
  colorSpace :: nat

record swap_chain_support_details =
  capabilities :: VkSurfaceCapabilitiesKHR
  formats :: "VkSurfaceFormatKHR list"
  present_modes :: "nat list"

record queue_family =
  queueFlags :: uint32_t
  present_support :: bool

record queue_family_indices =
  graphics_family :: "nat option"
  present_family :: "nat option"

record physical_device =
  handle :: nat
  geometryShader :: bool
  deviceType :: VkPhysicalDeviceType
  maxImageDimension2D :: uint32_t
  queue_families :: "queue_family list"
  available_extensions :: "string list"
  surface_support :: swap_chain_support_details

definition VK_QUEUE_GRAPHICS_BIT :: uint32_t where
  "VK_QUEUE_GRAPHICS_BIT = 1"

definition device_extensions :: "string list" where
  "device_extensions = [''VK_KHR_swapchain'']"

definition is_complete :: "queue_family_indices \<Rightarrow> bool" where
  "is_complete ind \<longleftrightarrow> graphics_family ind \<noteq> None \<and> present_family ind \<noteq> None"

text \<open>
  The loop of \<open>find_queue_families\<close>: \<open>i\<close> counts the families seen so far, and the
  loop is left as soon as both indices are set.
\<close>

fun find_queue_families_loop ::
  "queue_family list \<Rightarrow> nat \<Rightarrow> queue_family_indices \<Rightarrow> queue_family_indices" where
  "find_queue_families_loop [] i ind = ind"
| "find_queue_families_loop (q # qs) i ind =
     (let ind1 = (if and (queueFlags q) VK_QUEUE_GRAPHICS_BIT \<noteq> 0
                  then ind\<lparr>graphics_family := Some i\<rparr> else ind);
          ind2 = (if present_support q then ind1\<lparr>present_family := Some i\<rparr> else ind1)
      in if is_complete ind2 then ind2 else find_queue_families_loop qs (i + 1) ind2)"

definition find_queue_families :: "physical_device \<Rightarrow> queue_family_indices" where
  "find_queue_families device =
     find_queue_families_loop (queue_families device) 0
       \<lparr>graphics_family = None, present_family = None\<rparr>"

text \<open>
  \<open>check_device_extension_support\<close> erases every listed extension from the set of the
  required ones and asks whether nothing is left.
\<close>

definition check_device_extension_support :: "physical_device \<Rightarrow> bool" where
  "check_device_extension_support device \<longleftrightarrow>
     fold removeAll (available_extensions device) (remdups device_extensions) = []"

definition query_swap_chain_support :: "physical_device \<Rightarrow> swap_chain_support_details" where
  "query_swap_chain_support device = surface_support device"

definition is_device_suitable :: "physical_device \<Rightarrow> bool" where
  "is_device_suitable device =
     (let indices = find_queue_families device;
          extensions_supported = check_device_extension_support device;
          swap_chain_adequate =
            (if extensions_supported
             then (let swap_chain_support = query_swap_chain_support device
                   in formats swap_chain_support \<noteq> [] \<and> present_modes swap_chain_support \<noteq> [])
             else False)
      in is_complete indices \<and> extensions_supported \<and> swap_chain_adequate)"

text \<open>The score is a \<open>uint32_t\<close>: both additions wrap around at \<open>2 ^ 32\<close>.\<close>

definition rate_device_suitability :: "physical_device \<Rightarrow> uint32_t" where
  "rate_device_suitability device =
     (let score = 0
      in if \<not> geometryShader device then 0
         else if \<not> is_device_suitable device then 0
         else (let score = (if deviceType device = VK_PHYSICAL_DEVICE_TYPE_DISCRETE_GPU
                            then score + 1000 else score)
               in score + maxImageDimension2D device))"

text \<open>
  The candidates are kept in a \<open>std::multimap\<close>, here the list of its entries in iteration
  order. Inserting a pair puts it at the upper bound of its key: behind every entry whose
  key is not greater, so behind the entries of the same key inserted before it.
\<close>

fun multimap_insert :: "('k::linorder) \<times> 'v \<Rightarrow> ('k \<times> 'v) list \<Rightarrow> ('k \<times> 'v) list" where
  "multimap_insert p [] = [p]"
| "multimap_insert p (q # qs) =
     (if fst p < fst q then p # q # qs else q # multimap_insert p qs)"

definition rate_candidates :: "physical_device list \<Rightarrow> (uint32_t \<times> physical_device) list" where
  "rate_candidates devices =
     fold (\<lambda>device candidates. multimap_insert (rate_device_suitability device, device) candidates)
       devices []"

text \<open>The two \<open>std::runtime_error\<close>s of \<open>pick_physical_device\<close>, named by their messages.\<close>

datatype selection_error =
    Failed_to_find_GPUs_with_Vulkan_support
  | Failed_to_find_a_suitable_GPU

text \<open>\<open>candidates.rbegin()\<close> is the last entry of the multimap.\<close>

definition pick_physical_device :: "physical_device list \<Rightarrow> selection_error + physical_device" where
  "pick_physical_device devices =
     (if length devices = 0 then Inl Failed_to_find_GPUs_with_Vulkan_support
      else (let candidates = rate_candidates devices
            in if fst (last candidates) > 0 then Inr (snd (last candidates))
               else Inl Failed_to_find_a_suitable_GPU))"

text \<open>
  A device is eligible when neither of the two early returns of
  \<open>rate_device_suitability\<close> is taken.
\<close>

definition eligible :: "physical_device \<Rightarrow> bool" where
  "eligible device \<longleftrightarrow> geometryShader device \<and> is_device_suitable device"

text \<open>The greatest score among the devices of a non-empty list.\<close>

definition best_score :: "physical_device list \<Rightarrow> uint32_t" where
  "best_score ds = Max (rate_device_suitability ` set ds)"

text \<open>Devices for the examples: a usable device of a given handle, type and image limit.\<close>

definition usable_device :: "nat \<Rightarrow> VkPhysicalDeviceType \<Rightarrow> uint32_t \<Rightarrow> physical_device" where
  "usable_device h t m =
     \<lparr>handle = h, geometryShader = True, deviceType = t, maxImageDimension2D = m,
      queue_families = [\<lparr>queueFlags = 1, present_support = True\<rparr>],
      available_extensions = [''VK_KHR_swapchain''],
      surface_support =
        \<lparr>capabilities =
           \<lparr>minImageCount = 2, maxImageCount = 3,
            currentExtent = \<lparr>width = 800, height = 600\<rparr>,
            minImageExtent = \<lparr>width = 800, height = 600\<rparr>,
            maxImageExtent = \<lparr>width = 800, height = 600\<rparr>\<rparr>,
         formats = [\<lparr>format = 50, colorSpace = 0\<rparr>],
         present_modes = [2]\<rparr>\<rparr>"

text \<open>The same device without the geometry shader feature.\<close>

definition unusable_device :: "nat \<Rightarrow> VkPhysicalDeviceType \<Rightarrow> uint32_t \<Rightarrow> physical_device" where
  "unusable_device h t m = (usable_device h t m)\<lparr>geometryShader := False\<rparr>"

section \<open>Swap chain negotiation\<close>

definition WIDTH :: uint32_t where
  "WIDTH = 800"

definition HEIGHT :: uint32_t where
  "HEIGHT = 600"

definition UINT32_MAX :: uint32_t where
  "UINT32_MAX = 4294967295"

definition choose_swap_extent :: "VkSurfaceCapabilitiesKHR \<Rightarrow> VkExtent2D" where
  "choose_swap_extent caps =
     (if width (currentExtent caps) \<noteq> UINT32_MAX then currentExtent caps
      else \<lparr>width = max (width (minImageExtent caps)) (min (width (maxImageExtent caps)) WIDTH),
            height = max (height (minImageExtent caps)) (min (height (maxImageExtent caps)) HEIGHT)\<rparr>)"

text \<open>The image count computed at the start of \<open>create_swap_chain\<close>.\<close>

definition create_swap_chain_image_count :: "VkSurfaceCapabilitiesKHR \<Rightarrow> uint32_t" where
  "create_swap_chain_image_count caps =
     (let image_count = minImageCount caps + 1
      in if maxImageCount caps > 0 \<and> image_count > maxImageCount caps
         then maxImageCount caps else image_count)"

definition extent_within :: "VkExtent2D \<Rightarrow> VkSurfaceCapabilitiesKHR \<Rightarrow> bool" where
  "extent_within e caps \<longleftrightarrow>
     width (minImageExtent caps) \<le> width e \<and> width e \<le> width (maxImageExtent caps) \<and>
     height (minImageExtent caps) \<le> height e \<and> height e \<le> height (maxImageExtent caps)"

definition surface_caps ::
  "uint32_t \<Rightarrow> uint32_t \<Rightarrow> VkExtent2D \<Rightarrow> VkExtent2D \<Rightarrow> VkExtent2D \<Rightarrow> VkSurfaceCapabilitiesKHR" where
  "surface_caps lo hi cur emin emax =
     \<lparr>minImageCount = lo, maxImageCount = hi, currentExtent = cur,
      minImageExtent = emin, maxImageExtent = emax\<rparr>"

section \<open>Frame synchronisation\<close>

text \<open>
  The control thread runs \<open>draw_frame\<close> over and over; the device completes submitted
  work on its own. The state holds the members of the application that \<open>draw_frame\<close>
  reads and writes, the point the control thread has reached in \<open>draw_frame\<close> with its
  local variable \<open>image_index\<close>, and what the device knows: the status of every fence
  and the batches submitted to the graphics queue that have not completed yet.
  Handles are numbers, \<open>VK_NULL_HANDLE\<close> is 0.
\<close>

datatype VkResult =
    VK_SUCCESS
  | VK_NOT_READY
  | VK_TIMEOUT
  | VK_SUBOPTIMAL_KHR
  | VK_ERROR_OUT_OF_HOST_MEMORY
  | VK_ERROR_OUT_OF_DEVICE_MEMORY
  | VK_ERROR_DEVICE_LOST
  | VK_ERROR_SURFACE_LOST_KHR
  | VK_ERROR_OUT_OF_DATE_KHR

definition MAX_FRAMES_IN_FLIGHT :: nat where
  "MAX_FRAMES_IN_FLIGHT = 2"

definition VK_NULL_HANDLE :: nat where
  "VK_NULL_HANDLE = 0"

text \<open>
  A batch of \<open>vkQueueSubmit\<close>: the semaphore it waits for, the command buffer (there is
  one per swap chain image, so this is the index of the image rendered into), the semaphore
  and the fence it signals when it completes.
\<close>

record submission =
  wait_semaphore :: nat
  command_buffer :: nat
  signal_semaphore :: nat
  signal_fence :: nat

text \<open>The statements of \<open>draw_frame\<close>, in the order of the source.\<close>

datatype pc =
    PC_WaitSlotFence
  | PC_Acquire
  | PC_WaitImageFence
  | PC_MarkImage
  | PC_ResetFence
  | PC_Submit
  | PC_Present
  | PC_QueueWaitIdle
  | PC_Advance

record state =
  image_avaiable_semaphores :: "nat list"
  render_finished_semaphores :: "nat list"
  in_flight_fences :: "nat list"
  images_in_flight :: "nat list"
  current_frame :: nat
  pc :: pc
  image_index :: nat
  next_handle :: nat
  fence_signaled :: "nat \<rightharpoonup> bool"
  pending :: "submission list"

text \<open>
  What the driver answers to one call: whether a call that waits may return now (an image
  can be acquired, the queue is idle), the \<open>VkResult\<close>, and the image index written by
  \<open>vkAcquireNextImageKHR\<close>. When the acquisition fails the local variable is not
  written; \<open>acquired_image\<close> then stands for whatever it holds.
\<close>

record reply =
  ready :: bool
  result :: VkResult
  acquired_image :: nat

datatype frame_error =
    Failed_to_create_synchronization_objects_for_a_frame
  | Failed_to_submit_draw_command_buffer

text \<open>
  A statement continues in a new state, blocks the control thread, throws a
  \<open>std::runtime_error\<close>, or indexes a vector out of range or passes a handle that is not
  one of the device, which C++ and Vulkan leave undefined.
\<close>

datatype 'a outcome = Continues 'a | Blocks | Throws frame_error | Undefined_behaviour

subsection \<open>The driver\<close>

text \<open>
  \<open>vkCreateFence\<close> hands out a fresh handle; the fence starts signaled when the create
  info carries \<open>VK_FENCE_CREATE_SIGNALED_BIT\<close>. \<open>vkCreateSemaphore\<close> hands out a fresh
  handle too.
\<close>

definition vkCreateSemaphore :: "state \<Rightarrow> nat \<times> state" where
  "vkCreateSemaphore s = (next_handle s, s\<lparr>next_handle := next_handle s + 1\<rparr>)"

definition vkCreateFence :: "bool \<Rightarrow> state \<Rightarrow> nat \<times> state" where
  "vkCreateFence signaled_bit s =
     (next_handle s,
      s\<lparr>next_handle := next_handle s + 1,
        fence_signaled := (fence_signaled s)(next_handle s \<mapsto> signaled_bit)\<rparr>)"

text \<open>
  The calls of \<open>draw_frame\<close> with the arguments that matter here: the fence and the
  timeout of a wait, the timeout and the semaphore of an acquisition, the queue and the
  batch of a submission, the queue, the wait semaphore and the image index of a
  presentation, the queue that is waited for.
\<close>

definition UINT64_MAX :: "64 word" where
  "UINT64_MAX = 18446744073709551615"

datatype queue = graphics_queue | present_queue

datatype vk_call =
    vkWaitForFences nat "64 word"
  | vkAcquireNextImageKHR "64 word" nat
  | vkResetFences nat
  | vkQueueSubmit queue submission
  | vkQueuePresentKHR queue nat nat
  | vkQueueWaitIdle queue

text \<open>
  What a call does and returns, as the Vulkan API describes it; none of this is code of
  the program. Every call may return an error, and then changes nothing.
  \<^item> A wait returns \<open>VK_SUCCESS\<close> only when the fence is signaled; with the timeout
    \<open>UINT64_MAX\<close> it blocks until then.
  \<^item> An acquisition returns once the driver is ready, and writes the image index; with
    the timeout \<open>UINT64_MAX\<close> it blocks until then. When it fails the index is not
    written, and \<open>acquired_image\<close> stands for whatever the local variable holds.
  \<^item> A successful reset leaves the fence unsignaled, a successful submission appends
    the batch to those pending.
  \<^item> \<open>vkQueueWaitIdle\<close> returns once the driver is ready.
\<close>

fun driver :: "vk_call \<Rightarrow> reply \<Rightarrow> state \<Rightarrow> (VkResult \<times> state) outcome" where
  "driver (vkWaitForFences f timeout) r s =
     (case fence_signaled s f of
        None \<Rightarrow> Undefined_behaviour
      | Some signaled \<Rightarrow>
          if result r \<noteq> VK_SUCCESS then Continues (result r, s)
          else if signaled then Continues (VK_SUCCESS, s)
          else if timeout = UINT64_MAX then Blocks
          else Continues (VK_TIMEOUT, s))"
| "driver (vkAcquireNextImageKHR timeout semaphore) r s =
     (if ready r then Continues (result r, s\<lparr>image_index := acquired_image r\<rparr>)
      else if timeout = UINT64_MAX then Blocks
      else Continues (VK_TIMEOUT, s))"
| "driver (vkResetFences f) r s =
     (case fence_signaled s f of
        None \<Rightarrow> Undefined_behaviour
      | Some _ \<Rightarrow>
          if result r = VK_SUCCESS
          then Continues (VK_SUCCESS, s\<lparr>fence_signaled := (fence_signaled s)(f \<mapsto> False)\<rparr>)
          else Continues (result r, s))"
| "driver (vkQueueSubmit q b) r s =
     (if result r = VK_SUCCESS then Continues (VK_SUCCESS, s\<lparr>pending := pending s @ [b]\<rparr>)
      else Continues (result r, s))"
| "driver (vkQueuePresentKHR q semaphore i) r s = Continues (result r, s)"
| "driver (vkQueueWaitIdle q) r s = (if ready r then Continues (result r, s) else Blocks)"

subsection \<open>\<open>create_sync_objects\<close>\<close>

text \<open>
  The loop over the frame slots. Each round creates two semaphores and a fence; the results
  of the three calls are given by the driver, and any failure throws.
\<close>

fun create_sync_loop ::
  "nat \<Rightarrow> (VkResult \<times> VkResult \<times> VkResult) list \<Rightarrow> state \<Rightarrow> frame_error + state" where
  "create_sync_loop i [] s = Inr s"
| "create_sync_loop i ((r1, r2, r3) # rs) s =
     (if r1 \<noteq> VK_SUCCESS \<or> r2 \<noteq> VK_SUCCESS \<or> r3 \<noteq> VK_SUCCESS
      then Inl Failed_to_create_synchronization_objects_for_a_frame
      else (let (a, s1) = vkCreateSemaphore s;
                (b, s2) = vkCreateSemaphore s1;
                (c, s3) = vkCreateFence True s2
            in create_sync_loop (i + 1) rs
                 (s3\<lparr>image_avaiable_semaphores := (image_avaiable_semaphores s3)[i := a],
                     render_finished_semaphores := (render_finished_semaphores s3)[i := b],
                     in_flight_fences := (in_flight_fences s3)[i := c]\<rparr>)))"

text \<open>
  The vectors are resized first: the three per-slot vectors to \<open>MAX_FRAMES_IN_FLIGHT\<close>
  null handles, \<open>images_in_flight_\<close> to one null handle per swap chain image. No fence
  exists and nothing has been submitted before.
\<close>

definition create_sync_objects ::
  "nat \<Rightarrow> (nat \<Rightarrow> VkResult \<times> VkResult \<times> VkResult) \<Rightarrow> frame_error + state" where
  "create_sync_objects swap_chain_images_size results =
     create_sync_loop 0 (map results [0..<MAX_FRAMES_IN_FLIGHT])
       \<lparr>image_avaiable_semaphores = replicate MAX_FRAMES_IN_FLIGHT VK_NULL_HANDLE,
        render_finished_semaphores = replicate MAX_FRAMES_IN_FLIGHT VK_NULL_HANDLE,
        in_flight_fences = replicate MAX_FRAMES_IN_FLIGHT VK_NULL_HANDLE,
        images_in_flight = replicate swap_chain_images_size VK_NULL_HANDLE,
        current_frame = 0,
        pc = PC_WaitSlotFence,
        image_index = 0,
        next_handle = 1,
        fence_signaled = Map.empty,
        pending = []\<rparr>"

subsection \<open>\<open>draw_frame\<close>, statement by statement\<close>

text \<open>
  A statement of \<open>draw_frame\<close> is a call whose result is not read, a call whose
  result is tested and throws when it is not \<open>VK_SUCCESS\<close>, or an assignment to members
  of the application, given by the state it leaves. A vector indexed out of range is
  undefined.
\<close>

datatype stmt =
    Dropped vk_call pc
  | Tested vk_call frame_error pc
  | Assign state
  | Out_of_range

text \<open>
  The statement at each point of \<open>draw_frame\<close>. Only the result of \<open>vkQueueSubmit\<close> is
  tested. Both waits and the acquisition pass the timeout \<open>UINT64_MAX\<close>.
  \<open>command_buffers_\<close> has one entry per swap chain image, as \<open>images_in_flight_\<close> has.
\<close>

definition draw_frame :: "state \<Rightarrow> stmt" where
  "draw_frame s =
     (case pc s of
        PC_WaitSlotFence \<Rightarrow>
          if current_frame s < length (in_flight_fences s)
          then Dropped (vkWaitForFences (in_flight_fences s ! current_frame s) UINT64_MAX)
                 PC_Acquire
          else Out_of_range
      | PC_Acquire \<Rightarrow>
          if current_frame s < length (image_avaiable_semaphores s)
          then Dropped (vkAcquireNextImageKHR UINT64_MAX
                          (image_avaiable_semaphores s ! current_frame s))
                 PC_WaitImageFence
          else Out_of_range
      | PC_WaitImageFence \<Rightarrow>
          if image_index s < length (images_in_flight s)
          then (if images_in_flight s ! image_index s \<noteq> VK_NULL_HANDLE
                then Dropped (vkWaitForFences (images_in_flight s ! image_index s) UINT64_MAX)
                       PC_MarkImage
                else Assign (s\<lparr>pc := PC_MarkImage\<rparr>))
          else Out_of_range
      | PC_MarkImage \<Rightarrow>
          if image_index s < length (images_in_flight s) \<and>
             current_frame s < length (in_flight_fences s)
          then Assign
                 (s\<lparr>images_in_flight :=
                      (images_in_flight s)[image_index s := in_flight_fences s ! current_frame s],
                    pc := PC_ResetFence\<rparr>)
          else Out_of_range
      | PC_ResetFence \<Rightarrow>
          if current_frame s < length (in_flight_fences s)
          then Dropped (vkResetFences (in_flight_fences s ! current_frame s)) PC_Submit
          else Out_of_range
      | PC_Submit \<Rightarrow>
          if current_frame s < length (image_avaiable_semaphores s) \<and>
             current_frame s < length (render_finished_semaphores s) \<and>
             current_frame s < length (in_flight_fences s) \<and>
             image_index s < length (images_in_flight s)
          then Tested
                 (vkQueueSubmit graphics_queue
                    \<lparr>wait_semaphore = image_avaiable_semaphores s ! current_frame s,
                     command_buffer = image_index s,
                     signal_semaphore = render_finished_semaphores s ! current_frame s,
                     signal_fence = in_flight_fences s ! current_frame s\<rparr>)
                 Failed_to_submit_draw_command_buffer PC_Present
          else Out_of_range
      | PC_Present \<Rightarrow>
          Dropped (vkQueuePresentKHR present_queue
                     (render_finished_semaphores s ! current_frame s) (image_index s))
            PC_QueueWaitIdle
      | PC_QueueWaitIdle \<Rightarrow> Dropped (vkQueueWaitIdle present_queue) PC_Advance
      | PC_Advance \<Rightarrow>
          Assign (s\<lparr>current_frame := (current_frame s + 1) mod MAX_FRAMES_IN_FLIGHT,
                    pc := PC_WaitSlotFence\<rparr>))"

text \<open>The control thread executes the statement it has reached.\<close>

definition cpu_step :: "reply \<Rightarrow> state \<Rightarrow> state outcome" where
  "cpu_step r s =
     (case draw_frame s of
        Dropped c l \<Rightarrow>
          (case driver c r s of
             Continues (res, s') \<Rightarrow> Continues (s'\<lparr>pc := l\<rparr>)
           | Blocks \<Rightarrow> Blocks
           | Throws e \<Rightarrow> Throws e
           | Undefined_behaviour \<Rightarrow> Undefined_behaviour)
      | Tested c e l \<Rightarrow>
          (case driver c r s of
             Continues (res, s') \<Rightarrow>
               if res \<noteq> VK_SUCCESS then Throws e else Continues (s'\<lparr>pc := l\<rparr>)
           | Blocks \<Rightarrow> Blocks
           | Throws e' \<Rightarrow> Throws e'
           | Undefined_behaviour \<Rightarrow> Undefined_behaviour)
      | Assign s' \<Rightarrow> Continues s'
      | Out_of_range \<Rightarrow> Undefined_behaviour)"

text \<open>The fence of the current frame slot.\<close>

definition slot_fence :: "state \<Rightarrow> nat" where
  "slot_fence s = in_flight_fences s ! current_frame s"

text \<open>The calls made by the statements executed in a list of states, oldest first.\<close>

definition call_of :: "stmt \<Rightarrow> vk_call list" where
  "call_of st = (case st of Dropped c l \<Rightarrow> [c] | Tested c e l \<Rightarrow> [c] | Assign s' \<Rightarrow> [] | Out_of_range \<Rightarrow> [])"

definition calls :: "state list \<Rightarrow> vk_call list" where
  "calls h = concat (map (\<lambda>s. call_of (draw_frame s)) h)"

subsection \<open>The device\<close>

text \<open>
  The device completes a batch that is pending: the batch leaves the queue and its fence
  becomes signaled. Any pending batch may complete next.
\<close>

definition gpu_complete :: "submission \<Rightarrow> state \<Rightarrow> state option" where
  "gpu_complete b s =
     (if b \<in> set (pending s)
      then Some (s\<lparr>pending := remove1 b (pending s),
                   fence_signaled := (fence_signaled s)(signal_fence b \<mapsto> True)\<rparr>)
      else None)"

subsection \<open>Runs\<close>

text \<open>
  The states reached after \<open>create_sync_objects\<close> succeeded for a swap chain of \<open>n\<close>
  images, with the states in which the control thread executed a statement so far, oldest
  first.
\<close>

inductive reach :: "nat \<Rightarrow> state list \<Rightarrow> state \<Rightarrow> bool" for n :: nat where
  reach_init: "create_sync_objects n results = Inr s \<Longrightarrow> reach n [] s"
| reach_cpu: "reach n h s \<Longrightarrow> cpu_step r s = Continues s' \<Longrightarrow> reach n (h @ [s]) s'"
| reach_gpu: "reach n h s \<Longrightarrow> gpu_complete b s = Some s' \<Longrightarrow> reach n h s'"

text \<open>
  A schedule of statements and completions, run from a state. The completion of a batch
  that is not pending does not happen.
\<close>

datatype event = Cpu reply | Gpu submission

fun run :: "event list \<Rightarrow> state \<Rightarrow> state outcome" where
  "run [] s = Continues s"
| "run (Cpu r # es) s =
     (case cpu_step r s of Continues s' \<Rightarrow> run es s' | other \<Rightarrow> other)"
| "run (Gpu b # es) s =
     (case gpu_complete b s of Some s' \<Rightarrow> run es s' | None \<Rightarrow> run es s)"

text \<open>The states in which the control thread executes the statements of a schedule.\<close>

fun visited :: "event list \<Rightarrow> state \<Rightarrow> state list" where
  "visited [] s = []"
| "visited (Cpu r # es) s =
     (case cpu_step r s of Continues s' \<Rightarrow> s # visited es s' | other \<Rightarrow> [])"
| "visited (Gpu b # es) s =
     (case gpu_complete b s of Some s' \<Rightarrow> visited es s' | None \<Rightarrow> visited es s)"

text \<open>
  The runs in which no wait for a fence and no reset of a fence returns an error: these
  are the calls whose result \<open>draw_frame\<close> does not read although the frame protocol
  rests on them.
\<close>

definition fences_obeyed :: "reply \<Rightarrow> state \<Rightarrow> bool" where
  "fences_obeyed r s \<longleftrightarrow>
     (pc s \<in> {PC_WaitSlotFence, PC_WaitImageFence, PC_ResetFence} \<longrightarrow> result r = VK_SUCCESS)"

inductive reach_obeyed :: "nat \<Rightarrow> state \<Rightarrow> bool" for n :: nat where
  obeyed_init: "create_sync_objects n results = Inr s \<Longrightarrow> reach_obeyed n s"
| obeyed_cpu: "reach_obeyed n s \<Longrightarrow> fences_obeyed r s \<Longrightarrow> cpu_step r s = Continues s' \<Longrightarrow>
     reach_obeyed n s'"
| obeyed_gpu: "reach_obeyed n s \<Longrightarrow> gpu_complete b s = Some s' \<Longrightarrow> reach_obeyed n s'"

subsection \<open>\<open>main\<close>\<close>

text \<open>
  \<open>main\<close> catches every exception and returns \<open>EXIT_FAILURE\<close>; when the loop is left
  because the window was closed it returns \<open>EXIT_SUCCESS\<close>. A control thread that is
  blocked, or an undefined behaviour, yields no exit status.
\<close>

definition EXIT_SUCCESS :: int where
  "EXIT_SUCCESS = 0"

definition EXIT_FAILURE :: int where
  "EXIT_FAILURE = 1"

definition main :: "state outcome \<Rightarrow> int option" where
  "main out =
     (case out of
        Continues s \<Rightarrow> Some EXIT_SUCCESS
      | Throws e \<Rightarrow> Some EXIT_FAILURE
      | Blocks \<Rightarrow> None
      | Undefined_behaviour \<Rightarrow> None)"

subsection \<open>Schedules for the examples\<close>

text \<open>A driver that creates every synchronisation object.\<close>

definition sync_created :: "nat \<Rightarrow> VkResult \<times> VkResult \<times> VkResult" where
  "sync_created i = (VK_SUCCESS, VK_SUCCESS, VK_SUCCESS)"

text \<open>The state in which \<open>create_sync_objects\<close> then leaves a swap chain of \<open>n\<close> images.\<close>

definition started :: "nat \<Rightarrow> state" where
  "started n =
     \<lparr>image_avaiable_semaphores = [1, 4],
      render_finished_semaphores = [2, 5],
      in_flight_fences = [3, 6],
      images_in_flight = replicate n VK_NULL_HANDLE,
      current_frame = 0,
      pc = PC_WaitSlotFence,
      image_index = 0,
      next_handle = 7,
      fence_signaled = [3 \<mapsto> True, 6 \<mapsto> True],
      pending = []\<rparr>"

text \<open>A call that returns at once with a result and an image index, and one that does not.\<close>

definition answer :: "VkResult \<Rightarrow> nat \<Rightarrow> reply" where
  "answer res i = \<lparr>ready = True, result = res, acquired_image = i\<rparr>"

definition busy :: reply where
  "busy = \<lparr>ready = False, result = VK_SUCCESS, acquired_image = 0\<rparr>"

text \<open>
  The nine statements of one \<open>draw_frame\<close>, with the result and the image index of the
  acquisition, the result of the submission and the result of the presentation.
\<close>

definition frame_events :: "VkResult \<Rightarrow> nat \<Rightarrow> VkResult \<Rightarrow> VkResult \<Rightarrow> event list" where
  "frame_events acquired i submitted presented =
     [Cpu (answer VK_SUCCESS 0), Cpu (answer acquired i), Cpu (answer VK_SUCCESS 0),
      Cpu (answer VK_SUCCESS 0), Cpu (answer VK_SUCCESS 0), Cpu (answer submitted 0),
      Cpu (answer presented 0), Cpu (answer VK_SUCCESS 0), Cpu (answer VK_SUCCESS 0)]"

text \<open>
  A frame on image 0, then a second frame on image 1 up to its submission, while the device
  completes nothing.
\<close>

definition two_frames :: "event list" where
  "two_frames =
     take 7 (frame_events VK_SUCCESS 0 VK_SUCCESS VK_SUCCESS) @
     [Cpu (answer VK_SUCCESS 0), Cpu (answer VK_SUCCESS 0)] @
     take 6 (frame_events VK_SUCCESS 1 VK_SUCCESS VK_SUCCESS)"

text \<open>A frame on image 0, then the second frame up to the acquisition of image 1.\<close>

definition second_acquired :: "event list" where
  "second_acquired =
     frame_events VK_SUCCESS 0 VK_SUCCESS VK_SUCCESS @
     take 2 (frame_events VK_SUCCESS 1 VK_SUCCESS VK_SUCCESS)"


text \<open>
  The same with a first frame whose \<open>vkResetFences\<close> returns an error: the fence of
  slot 0 stays signaled, and the third frame does not even have to wait.
\<close>

definition first_frame_unreset :: "event list" where
  "first_frame_unreset =
     take 4 (frame_events VK_SUCCESS 0 VK_SUCCESS VK_SUCCESS) @
     [Cpu (answer VK_ERROR_OUT_OF_DEVICE_MEMORY 0)] @
     drop 5 (frame_events VK_SUCCESS 0 VK_SUCCESS VK_SUCCESS) @
     frame_events VK_SUCCESS 1 VK_SUCCESS VK_SUCCESS @
     take 6 (frame_events VK_SUCCESS 2 VK_SUCCESS VK_SUCCESS)"



text \<open>
  A frame on image 0 that the device completes, then a second frame on the same image up
  to its last statement.
\<close>

definition image_reused :: "event list" where
  "image_reused =
     frame_events VK_SUCCESS 0 VK_SUCCESS VK_SUCCESS @
     [Gpu \<lparr>wait_semaphore = 1, command_buffer = 0, signal_semaphore = 2, signal_fence = 3\<rparr>] @
     take 8 (frame_events VK_SUCCESS 0 VK_SUCCESS VK_SUCCESS)"

subsection \<open>The calls of one iteration\<close>



subsection \<open>Invariants of the frame protocol\<close>

text \<open>
  The vectors keep their sizes, the slot fences are different fences of the device, and
  an entry of \<open>images_in_flight_\<close> is null or a slot fence.
\<close>

definition slots_wf :: "nat \<Rightarrow> state \<Rightarrow> bool" where
  "slots_wf n s \<longleftrightarrow>
     length (in_flight_fences s) = MAX_FRAMES_IN_FLIGHT \<and>
     length (image_avaiable_semaphores s) = MAX_FRAMES_IN_FLIGHT \<and>
     length (render_finished_semaphores s) = MAX_FRAMES_IN_FLIGHT \<and>
     length (images_in_flight s) = n \<and>
     distinct (in_flight_fences s) \<and>
     VK_NULL_HANDLE \<notin> set (in_flight_fences s) \<and>
     (\<forall>f\<in>set (in_flight_fences s). fence_signaled s f \<noteq> None) \<and>
     (\<forall>f\<in>set (images_in_flight s). f = VK_NULL_HANDLE \<or> f \<in> set (in_flight_fences s)) \<and>
     current_frame s < MAX_FRAMES_IN_FLIGHT"

text \<open>
  Every pending batch signals a slot fence that is not signaled, renders into an image
  whose entry of \<open>images_in_flight_\<close> is that fence, and no two pending batches share a
  fence or an image.
\<close>

definition pending_wf :: "nat \<Rightarrow> state \<Rightarrow> bool" where
  "pending_wf n s \<longleftrightarrow>
     (\<forall>b\<in>set (pending s).
        signal_fence b \<in> set (in_flight_fences s) \<and>
        fence_signaled s (signal_fence b) = Some False \<and>
        command_buffer b < n \<and>
        images_in_flight s ! command_buffer b = signal_fence b) \<and>
     distinct (map signal_fence (pending s)) \<and>
     distinct (map command_buffer (pending s))"

text \<open>What the control thread has established at each statement of \<open>draw_frame\<close>.\<close>

definition thread_wf :: "nat \<Rightarrow> state \<Rightarrow> bool" where
  "thread_wf n s \<longleftrightarrow>
     (pc s \<in> {PC_Acquire, PC_WaitImageFence, PC_MarkImage, PC_ResetFence}
        \<longrightarrow> fence_signaled s (slot_fence s) = Some True) \<and>
     (pc s \<in> {PC_MarkImage, PC_ResetFence, PC_Submit} \<longrightarrow> image_index s < n) \<and>
     (pc s = PC_MarkImage
        \<longrightarrow> images_in_flight s ! image_index s = VK_NULL_HANDLE \<or>
            fence_signaled s (images_in_flight s ! image_index s) = Some True) \<and>
     (pc s \<in> {PC_ResetFence, PC_Submit}
        \<longrightarrow> images_in_flight s ! image_index s = slot_fence s \<and>
            (\<forall>b\<in>set (pending s). command_buffer b \<noteq> image_index s)) \<and>
     (pc s = PC_Submit
        \<longrightarrow> fence_signaled s (slot_fence s) = Some False \<and>
            (\<forall>b\<in>set (pending s). signal_fence b \<noteq> slot_fence s))"

definition frame_inv :: "nat \<Rightarrow> state \<Rightarrow> bool" where
  "frame_inv n s \<longleftrightarrow> slots_wf n s \<and> pending_wf n s \<and> thread_wf n s"

text \<open>
  The frame slots whose fence is not signaled: the fence was reset for a submission that
  has not completed.
\<close>

definition submitted_slots :: "state \<Rightarrow> nat set" where
  "submitted_slots s =
     {k. k < length (in_flight_fences s) \<and>
         fence_signaled s (in_flight_fences s ! k) = Some False}"

text \<open>
  Frame slot \<open>k\<close> claims image \<open>i\<close>: the entry of the image in \<open>images_in_flight_\<close> is
  the fence of the slot, and that fence is not signaled.
\<close>

definition claims_image :: "state \<Rightarrow> nat \<Rightarrow> nat \<Rightarrow> bool" where
  "claims_image s k i \<longleftrightarrow>
     images_in_flight s ! i = in_flight_fences s ! k \<and>
     fence_signaled s (in_flight_fences s ! k) = Some False"

section \<open>Properties of the device selection\<close>

subsection \<open>The multimap of candidates\<close>

lemma set_multimap_insert: "set (multimap_insert p cs) = insert p (set cs)"
  by (induction cs) auto

lemma sorted_multimap_insert:
  "sorted (map fst cs) \<Longrightarrow> sorted (map fst (multimap_insert p cs))"
  by (induction cs) (auto simp: set_multimap_insert)

lemma last_multimap_insert:
  "sorted (map fst cs) \<Longrightarrow>
   last (multimap_insert p cs) = (if cs \<noteq> [] \<and> fst p < fst (last cs) then last cs else p)"
proof (induction cs)
  case Nil
  then show ?case by simp
next
  case (Cons q qs)
  show ?case
  proof (cases "fst p < fst q")
    case True
    have "fst q \<le> fst (last (q # qs))"
      using Cons.prems by (cases "qs = []") auto
    with True show ?thesis by auto
  next
    case False
    have nonempty: "multimap_insert p qs \<noteq> []" by (cases qs) auto
    from Cons have IH: "last (multimap_insert p qs) =
        (if qs \<noteq> [] \<and> fst p < fst (last qs) then last qs else p)" by simp
    from False nonempty IH show ?thesis by auto
  qed
qed

text \<open>
  The loop of \<open>pick_physical_device\<close> inserts the devices in enumeration order, so the
  multimap of a list extended by one device is the multimap of the list with that device
  inserted.
\<close>

lemma rate_candidates_Nil: "rate_candidates [] = []"
  by (simp add: rate_candidates_def)

lemma rate_candidates_snoc:
  "rate_candidates (ds @ [d]) = multimap_insert (rate_device_suitability d, d) (rate_candidates ds)"
  by (simp add: rate_candidates_def)

lemma sorted_rate_candidates: "sorted (map fst (rate_candidates ds))"
  by (induction ds rule: rev_induct)
     (simp_all add: rate_candidates_Nil rate_candidates_snoc sorted_multimap_insert)

lemma rate_candidates_eq_Nil: "rate_candidates ds = [] \<longleftrightarrow> ds = []"
proof (cases ds rule: rev_cases)
  case Nil
  then show ?thesis by (simp add: rate_candidates_Nil)
next
  case (snoc ys y)
  have "multimap_insert p cs \<noteq> []" for p :: "uint32_t \<times> physical_device" and cs
    by (cases cs) auto
  with snoc show ?thesis by (simp add: rate_candidates_snoc)
qed

text \<open>
  The last entry of the multimap carries the greatest score, and among the devices of that
  score the one enumerated last.
\<close>

lemma last_rate_candidates:
  "ds \<noteq> [] \<Longrightarrow>
   last (rate_candidates ds) =
     (best_score ds, last (filter (\<lambda>d. rate_device_suitability d = best_score ds) ds))"
proof (induction ds rule: rev_induct)
  case Nil
  then show ?case by simp
next
  case (snoc d ds)
  let ?r = "rate_device_suitability d"
  show ?case
  proof (cases "ds = []")
    case True
    then show ?thesis
      by (simp add: rate_candidates_def best_score_def)
  next
    case False
    let ?M = "best_score ds"
    from False snoc.IH have IH: "last (rate_candidates ds) =
      (?M, last (filter (\<lambda>d. rate_device_suitability d = ?M) ds))" by simp
    have M': "best_score (ds @ [d]) = max ?r ?M"
      using False by (simp add: best_score_def)
    have ne: "rate_candidates ds \<noteq> []" using False by (simp add: rate_candidates_eq_Nil)
    have L: "last (rate_candidates (ds @ [d])) =
       (if ?r < ?M then last (rate_candidates ds) else (?r, d))"
      using ne IH by (simp add: rate_candidates_snoc last_multimap_insert sorted_rate_candidates)
    show ?thesis
    proof (cases "?r < ?M")
      case True
      then have "max ?r ?M = ?M" by simp
      with True L IH M' show ?thesis by auto
    next
      case False
      then have "max ?r ?M = ?r" by simp
      with False L M' show ?thesis by auto
    qed
  qed
qed

lemma best_score_attained:
  "ds \<noteq> [] \<Longrightarrow> filter (\<lambda>d. rate_device_suitability d = best_score ds) ds \<noteq> []"
proof -
  assume "ds \<noteq> []"
  then have "best_score ds \<in> rate_device_suitability ` set ds"
    unfolding best_score_def by (intro Max_in) auto
  then show ?thesis by (auto simp: filter_empty_conv)
qed

lemma best_score_ge: "d \<in> set ds \<Longrightarrow> rate_device_suitability d \<le> best_score ds"
  unfolding best_score_def by (intro Max_ge) auto

lemma pick_physical_device_eq:
  "pick_physical_device ds =
     (if ds = [] then Inl Failed_to_find_GPUs_with_Vulkan_support
      else if 0 < best_score ds
      then Inr (last (filter (\<lambda>d. rate_device_suitability d = best_score ds) ds))
      else Inl Failed_to_find_a_suitable_GPU)"
  by (simp add: pick_physical_device_def last_rate_candidates)

subsection \<open>Scores\<close>

lemma eligible_usable_device: "eligible (usable_device h t m)"
  by (simp add: eligible_def usable_device_def is_device_suitable_def find_queue_families_def
      is_complete_def check_device_extension_support_def device_extensions_def
      query_swap_chain_support_def VK_QUEUE_GRAPHICS_BIT_def)

lemma rate_eligible:
  "eligible d \<Longrightarrow> rate_device_suitability d =
     (if deviceType d = VK_PHYSICAL_DEVICE_TYPE_DISCRETE_GPU then 1000 else 0) + maxImageDimension2D d"
  by (simp add: eligible_def rate_device_suitability_def)

lemma rate_not_eligible: "\<not> eligible d \<Longrightarrow> rate_device_suitability d = 0"
  by (auto simp: eligible_def rate_device_suitability_def)

lemma rate_usable_device:
  "rate_device_suitability (usable_device h t m) =
     (if t = VK_PHYSICAL_DEVICE_TYPE_DISCRETE_GPU then 1000 else 0) + m"
  using rate_eligible [OF eligible_usable_device, of h t m] by (simp add: usable_device_def)

lemma rate_unusable_device: "rate_device_suitability (unusable_device h t m) = 0"
  by (simp add: rate_device_suitability_def unusable_device_def)

subsection \<open>Discrete against integrated devices\<close>

text \<open>
  Claim C1, as amended. The claim says that a list with an eligible discrete and an eligible
  integrated device always yields a discrete device, whatever the values of
  \<open>maxImageDimension2D\<close>. The score adds 1000 to the image limit, so this holds only
  when the limits are close enough: if some eligible discrete device \<open>d\<close> has a limit
  whose sum with 1000 does not wrap around, and every eligible device that is not discrete
  has a limit below the limit of \<open>d\<close> plus 1000, then the selection succeeds with an
  eligible discrete device of the list.
\<close>

theorem pick_physical_device_discrete:
  assumes d: "d \<in> set devices" "eligible d" "deviceType d = VK_PHYSICAL_DEVICE_TYPE_DISCRETE_GPU"
    and nowrap: "unat (maxImageDimension2D d) + 1000 < 2 ^ 32"
    and others: "\<forall>e\<in>set devices. eligible e \<and> deviceType e \<noteq> VK_PHYSICAL_DEVICE_TYPE_DISCRETE_GPU
           \<longrightarrow> unat (maxImageDimension2D e) < unat (maxImageDimension2D d) + 1000"
  shows "\<exists>p. pick_physical_device devices = Inr p \<and> p \<in> set devices \<and> eligible p \<and>
           deviceType p = VK_PHYSICAL_DEVICE_TYPE_DISCRETE_GPU"
proof -
  let ?r = rate_device_suitability
  let ?ties = "filter (\<lambda>x. ?r x = best_score devices) devices"
  let ?p = "last ?ties"
  from d(1) have ne: "devices \<noteq> []" by auto
  have rd: "unat (?r d) = unat (maxImageDimension2D d) + 1000"
    using d(2,3) nowrap by (simp add: rate_eligible unat_word_ariths)
  have "?p \<in> set ?ties" using best_score_attained [OF ne] by (rule last_in_set)
  then have p_in: "?p \<in> set devices" and p_best: "?r ?p = best_score devices" by auto
  have ge: "?r d \<le> ?r ?p" using best_score_ge [OF d(1)] p_best by simp
  then have ge_nat: "unat (?r d) \<le> unat (?r ?p)" by (simp add: word_le_nat_alt)
  with rd have pos_nat: "0 < unat (?r ?p)" by simp
  then have pos: "0 < best_score devices" using p_best by (simp add: word_less_nat_alt)
  have p_el: "eligible ?p"
  proof (rule ccontr)
    assume "\<not> eligible ?p"
    then have "?r ?p = 0" by (rule rate_not_eligible)
    with pos_nat show False by simp
  qed
  have p_disc: "deviceType ?p = VK_PHYSICAL_DEVICE_TYPE_DISCRETE_GPU"
  proof (rule ccontr)
    assume nd: "deviceType ?p \<noteq> VK_PHYSICAL_DEVICE_TYPE_DISCRETE_GPU"
    with p_el have "?r ?p = maxImageDimension2D ?p" by (simp add: rate_eligible)
    moreover from others p_in p_el nd
    have "unat (maxImageDimension2D ?p) < unat (maxImageDimension2D d) + 1000" by blast
    ultimately show False using ge_nat rd by simp
  qed
  from ne pos have "pick_physical_device devices = Inr ?p"
    by (simp add: pick_physical_device_eq)
  with p_in p_el p_disc show ?thesis by blast
qed

theorem pick_physical_device_discrete_witness:
  "\<exists>p. pick_physical_device
          [usable_device 1 VK_PHYSICAL_DEVICE_TYPE_INTEGRATED_GPU 16384,
           usable_device 2 VK_PHYSICAL_DEVICE_TYPE_DISCRETE_GPU 16384] = Inr p \<and>
       p \<in> set [usable_device 1 VK_PHYSICAL_DEVICE_TYPE_INTEGRATED_GPU 16384,
                usable_device 2 VK_PHYSICAL_DEVICE_TYPE_DISCRETE_GPU 16384] \<and>
       eligible p \<and> deviceType p = VK_PHYSICAL_DEVICE_TYPE_DISCRETE_GPU"
proof (rule pick_physical_device_discrete
    [of "usable_device 2 VK_PHYSICAL_DEVICE_TYPE_DISCRETE_GPU 16384"])
  show "\<forall>e\<in>set [usable_device 1 VK_PHYSICAL_DEVICE_TYPE_INTEGRATED_GPU 16384,
                  usable_device 2 VK_PHYSICAL_DEVICE_TYPE_DISCRETE_GPU 16384].
       eligible e \<and> deviceType e \<noteq> VK_PHYSICAL_DEVICE_TYPE_DISCRETE_GPU \<longrightarrow>
       unat (maxImageDimension2D e)
         < unat (maxImageDimension2D (usable_device 2 VK_PHYSICAL_DEVICE_TYPE_DISCRETE_GPU 16384)) + 1000"
    by (simp add: usable_device_def)
qed (simp_all add: eligible_usable_device, simp_all add: usable_device_def)

text \<open>
  The claim as stated fails for a discrete device of limit 4096 enumerated with an integrated
  device of limit 16384: the scores are 5096 and 16384, and the integrated device is picked.
\<close>

theorem pick_physical_device_discrete_counterexample:
  "eligible (usable_device 1 VK_PHYSICAL_DEVICE_TYPE_DISCRETE_GPU 4096) \<and>
   eligible (usable_device 2 VK_PHYSICAL_DEVICE_TYPE_INTEGRATED_GPU 16384) \<and>
   pick_physical_device
     [usable_device 1 VK_PHYSICAL_DEVICE_TYPE_DISCRETE_GPU 4096,
      usable_device 2 VK_PHYSICAL_DEVICE_TYPE_INTEGRATED_GPU 16384]
     = Inr (usable_device 2 VK_PHYSICAL_DEVICE_TYPE_INTEGRATED_GPU 16384) \<and>
   deviceType (usable_device 2 VK_PHYSICAL_DEVICE_TYPE_INTEGRATED_GPU 16384)
     = VK_PHYSICAL_DEVICE_TYPE_INTEGRATED_GPU"
  by (simp add: eligible_usable_device pick_physical_device_def rate_candidates_def
      rate_usable_device) (simp add: usable_device_def)

subsection \<open>Ties\<close>

text \<open>
  Claim C2, as amended. The claim says that among the devices of the greatest score the
  one enumerated first is picked. The multimap keeps entries of equal keys in insertion
  order and the code reads its last entry, so for every non-empty list whose greatest score
  is not zero the device picked is the last one, in enumeration order, of those with the
  greatest score.
\<close>

theorem pick_physical_device_last_of_ties:
  assumes "devices \<noteq> []" and "0 < best_score devices"
  shows "pick_physical_device devices =
     Inr (last (filter (\<lambda>d. rate_device_suitability d = best_score devices) devices))"
  using assms by (simp add: pick_physical_device_eq)

lemma best_score_pair:
  "best_score [a, b] = max (rate_device_suitability a) (rate_device_suitability b)"
  by (simp add: best_score_def max.commute)

theorem pick_physical_device_last_of_ties_witness:
  "pick_physical_device
     [usable_device 1 VK_PHYSICAL_DEVICE_TYPE_INTEGRATED_GPU 8192,
      usable_device 2 VK_PHYSICAL_DEVICE_TYPE_INTEGRATED_GPU 8192]
   = Inr (usable_device 2 VK_PHYSICAL_DEVICE_TYPE_INTEGRATED_GPU 8192)"
  using pick_physical_device_last_of_ties
    [of "[usable_device 1 VK_PHYSICAL_DEVICE_TYPE_INTEGRATED_GPU 8192,
          usable_device 2 VK_PHYSICAL_DEVICE_TYPE_INTEGRATED_GPU 8192]"]
  by (simp add: best_score_pair rate_usable_device)

text \<open>
  Two devices of the same score 5096: the second is picked, not the first.
\<close>

theorem pick_physical_device_first_of_ties_counterexample:
  "rate_device_suitability (usable_device 1 VK_PHYSICAL_DEVICE_TYPE_DISCRETE_GPU 4096)
     = rate_device_suitability (usable_device 2 VK_PHYSICAL_DEVICE_TYPE_DISCRETE_GPU 4096) \<and>
   pick_physical_device
     [usable_device 1 VK_PHYSICAL_DEVICE_TYPE_DISCRETE_GPU 4096,
      usable_device 2 VK_PHYSICAL_DEVICE_TYPE_DISCRETE_GPU 4096]
     = Inr (usable_device 2 VK_PHYSICAL_DEVICE_TYPE_DISCRETE_GPU 4096) \<and>
   pick_physical_device
     [usable_device 1 VK_PHYSICAL_DEVICE_TYPE_DISCRETE_GPU 4096,
      usable_device 2 VK_PHYSICAL_DEVICE_TYPE_DISCRETE_GPU 4096]
     \<noteq> Inr (usable_device 1 VK_PHYSICAL_DEVICE_TYPE_DISCRETE_GPU 4096)"
  by (simp add: pick_physical_device_def rate_candidates_def rate_usable_device)
     (simp add: usable_device_def)

subsection \<open>No eligible device\<close>

text \<open>
  Claim C3, as amended. When every device of the list scores 0 (as every device that is
  not eligible does, see \<open>rate_not_eligible\<close>), no device is selected. For a non-empty
  list the error is the one of the message "Failed to find a suitable GPU!"; for the empty
  list the guard on the device count fails first, with the error of the message
  "Failed to find GPUs with Vulkan support!".
\<close>

theorem pick_physical_device_none_eligible:
  assumes "\<forall>d\<in>set devices. rate_device_suitability d = 0"
  shows "pick_physical_device devices =
     Inl (if devices = [] then Failed_to_find_GPUs_with_Vulkan_support
          else Failed_to_find_a_suitable_GPU)"
proof (cases "devices = []")
  case True
  then show ?thesis by (simp add: pick_physical_device_def)
next
  case False
  let ?ties = "filter (\<lambda>d. rate_device_suitability d = best_score devices) devices"
  have "last ?ties \<in> set ?ties" using best_score_attained [OF False] by (rule last_in_set)
  with assms have "best_score devices = 0" by auto
  with False show ?thesis by (simp add: pick_physical_device_eq)
qed

theorem pick_physical_device_none_eligible_witness:
  "pick_physical_device
     [unusable_device 1 VK_PHYSICAL_DEVICE_TYPE_DISCRETE_GPU 16384,
      unusable_device 2 VK_PHYSICAL_DEVICE_TYPE_INTEGRATED_GPU 8192]
   = Inl Failed_to_find_a_suitable_GPU"
  using pick_physical_device_none_eligible
    [of "[unusable_device 1 VK_PHYSICAL_DEVICE_TYPE_DISCRETE_GPU 16384,
          unusable_device 2 VK_PHYSICAL_DEVICE_TYPE_INTEGRATED_GPU 8192]"]
  by (simp add: rate_unusable_device)

text \<open>
  The empty list has no eligible device, and the selection fails with the other error.
\<close>

theorem pick_physical_device_no_devices_counterexample:
  "pick_physical_device [] = Inl Failed_to_find_GPUs_with_Vulkan_support \<and>
   pick_physical_device [] \<noteq> Inl Failed_to_find_a_suitable_GPU"
  by (simp add: pick_physical_device_def)

lemma not_eligible_unusable_device: "\<not> eligible (unusable_device h t m)"
  by (simp add: eligible_def unusable_device_def)

section \<open>Properties of the swap chain negotiation\<close>

text \<open>
  Claim C4, as amended. The claim bounds the extent for every capability snapshot. The code
  returns the current extent as reported when its width is not the sentinel, and clamps
  in the order \<open>max lo (min hi x)\<close> otherwise, so the bound needs a well-formed snapshot:
  if the minimal extent is at most the maximal one in each component, and the current
  extent, when its width is not \<open>UINT32_MAX\<close>, lies within the bounds itself, then the
  chosen extent lies within the bounds in each component.
\<close>

theorem choose_swap_extent_within:
  assumes "width (minImageExtent caps) \<le> width (maxImageExtent caps)"
    and "height (minImageExtent caps) \<le> height (maxImageExtent caps)"
    and "width (currentExtent caps) \<noteq> UINT32_MAX \<longrightarrow> extent_within (currentExtent caps) caps"
  shows "extent_within (choose_swap_extent caps) caps"
  using assms by (auto simp: choose_swap_extent_def extent_within_def)

theorem choose_swap_extent_within_witness:
  "extent_within
     (choose_swap_extent
        (surface_caps 2 3 \<lparr>width = UINT32_MAX, height = UINT32_MAX\<rparr>
           \<lparr>width = 1, height = 1\<rparr> \<lparr>width = 640, height = 4096\<rparr>))
     (surface_caps 2 3 \<lparr>width = UINT32_MAX, height = UINT32_MAX\<rparr>
        \<lparr>width = 1, height = 1\<rparr> \<lparr>width = 640, height = 4096\<rparr>) \<and>
   choose_swap_extent
     (surface_caps 2 3 \<lparr>width = UINT32_MAX, height = UINT32_MAX\<rparr>
        \<lparr>width = 1, height = 1\<rparr> \<lparr>width = 640, height = 4096\<rparr>)
   = \<lparr>width = 640, height = 600\<rparr>"
  using choose_swap_extent_within
    [of "surface_caps 2 3 \<lparr>width = UINT32_MAX, height = UINT32_MAX\<rparr>
           \<lparr>width = 1, height = 1\<rparr> \<lparr>width = 640, height = 4096\<rparr>"]
  by (simp add: surface_caps_def choose_swap_extent_def WIDTH_def HEIGHT_def UINT32_MAX_def)

text \<open>
  A snapshot whose current extent 800 x 600 exceeds the maximal extent 640 x 480: the
  current extent is returned as it is.
\<close>

theorem choose_swap_extent_outside_counterexample:
  "choose_swap_extent
     (surface_caps 2 3 \<lparr>width = 800, height = 600\<rparr>
        \<lparr>width = 1, height = 1\<rparr> \<lparr>width = 640, height = 480\<rparr>)
   = \<lparr>width = 800, height = 600\<rparr> \<and>
   \<not> extent_within
     (choose_swap_extent
        (surface_caps 2 3 \<lparr>width = 800, height = 600\<rparr>
           \<lparr>width = 1, height = 1\<rparr> \<lparr>width = 640, height = 480\<rparr>))
     (surface_caps 2 3 \<lparr>width = 800, height = 600\<rparr>
        \<lparr>width = 1, height = 1\<rparr> \<lparr>width = 640, height = 480\<rparr>)"
  by (simp add: surface_caps_def choose_swap_extent_def extent_within_def UINT32_MAX_def)

text \<open>Adding one to a \<open>uint32_t\<close> other than \<open>UINT32_MAX\<close> does not wrap around.\<close>

lemma succ_ge:
  fixes x :: uint32_t
  assumes "x \<noteq> UINT32_MAX"
  shows "x \<le> x + 1"
proof -
  have "unat x \<noteq> 4294967295"
  proof
    assume "unat x = 4294967295"
    then have "word_of_nat (unat x) = (word_of_nat 4294967295 :: uint32_t)" by simp
    with assms show False by (simp add: UINT32_MAX_def)
  qed
  moreover have "unat x < 2 ^ 32" using unsigned_less [of x] by simp
  ultimately have "unat (x + 1) = unat x + 1"
    by (simp add: unat_word_ariths)
  then show ?thesis by (simp add: word_le_nat_alt)
qed

text \<open>
  Claim C5, as amended. The image count is \<open>minImageCount + 1\<close> (in 32 bits), replaced by
  \<open>maxImageCount\<close> when that is not zero and smaller; when \<open>maxImageCount\<close> is not zero
  the count never exceeds it. The count is at least \<open>minImageCount\<close> when
  \<open>minImageCount \<le> maxImageCount\<close> and \<open>minImageCount\<close> is not \<open>UINT32_MAX\<close>; the claim
  states this lower bound for every snapshot with \<open>maxImageCount > 0\<close>.
\<close>

theorem create_swap_chain_image_count_bounds:
  "create_swap_chain_image_count caps =
     (if 0 < maxImageCount caps \<and> maxImageCount caps < minImageCount caps + 1
      then maxImageCount caps else minImageCount caps + 1) \<and>
   (0 < maxImageCount caps \<longrightarrow> create_swap_chain_image_count caps \<le> maxImageCount caps) \<and>
   (minImageCount caps \<le> maxImageCount caps \<and> minImageCount caps \<noteq> UINT32_MAX
      \<longrightarrow> minImageCount caps \<le> create_swap_chain_image_count caps)"
proof (intro conjI impI)
  show "create_swap_chain_image_count caps =
     (if 0 < maxImageCount caps \<and> maxImageCount caps < minImageCount caps + 1
      then maxImageCount caps else minImageCount caps + 1)"
    by (simp add: create_swap_chain_image_count_def Let_def)
  show "create_swap_chain_image_count caps \<le> maxImageCount caps" if "0 < maxImageCount caps"
    using that by (auto simp: create_swap_chain_image_count_def Let_def)
  show "minImageCount caps \<le> create_swap_chain_image_count caps"
    if "minImageCount caps \<le> maxImageCount caps \<and> minImageCount caps \<noteq> UINT32_MAX"
    using that succ_ge [of "minImageCount caps"]
    by (auto simp: create_swap_chain_image_count_def Let_def)
qed

theorem create_swap_chain_image_count_bounds_witness:
  "create_swap_chain_image_count
     (surface_caps 2 2 \<lparr>width = 800, height = 600\<rparr>
        \<lparr>width = 1, height = 1\<rparr> \<lparr>width = 640, height = 480\<rparr>) = 2"
  using create_swap_chain_image_count_bounds
    [of "surface_caps 2 2 \<lparr>width = 800, height = 600\<rparr>
        \<lparr>width = 1, height = 1\<rparr> \<lparr>width = 640, height = 480\<rparr>"]
  by (simp add: surface_caps_def)

text \<open>
  With \<open>minImageCount = 3\<close> and \<open>maxImageCount = 2\<close> the count is 2, below the minimum.
\<close>

theorem create_swap_chain_image_count_below_min_counterexample:
  "0 < maxImageCount (surface_caps 3 2 \<lparr>width = 800, height = 600\<rparr>
        \<lparr>width = 1, height = 1\<rparr> \<lparr>width = 640, height = 480\<rparr>) \<and>
   create_swap_chain_image_count
     (surface_caps 3 2 \<lparr>width = 800, height = 600\<rparr>
        \<lparr>width = 1, height = 1\<rparr> \<lparr>width = 640, height = 480\<rparr>) = 2 \<and>
   \<not> minImageCount (surface_caps 3 2 \<lparr>width = 800, height = 600\<rparr>
        \<lparr>width = 1, height = 1\<rparr> \<lparr>width = 640, height = 480\<rparr>)
     \<le> create_swap_chain_image_count
         (surface_caps 3 2 \<lparr>width = 800, height = 600\<rparr>
            \<lparr>width = 1, height = 1\<rparr> \<lparr>width = 640, height = 480\<rparr>)"
  by (simp add: surface_caps_def create_swap_chain_image_count_def)

text \<open>
  With \<open>minImageCount = maxImageCount = UINT32_MAX\<close> the sum wraps around to 0, which
  is not above the maximum and is kept.
\<close>

lemma create_swap_chain_image_count_wraps:
  "create_swap_chain_image_count
     (surface_caps UINT32_MAX UINT32_MAX \<lparr>width = 800, height = 600\<rparr>
        \<lparr>width = 1, height = 1\<rparr> \<lparr>width = 640, height = 480\<rparr>) = 0"
  by (simp add: surface_caps_def create_swap_chain_image_count_def UINT32_MAX_def)

section \<open>Properties of the frame synchronisation\<close>

subsection \<open>The state after \<open>create_sync_objects\<close>\<close>

lemma slots_upt: "[0..<MAX_FRAMES_IN_FLIGHT] = [0, Suc 0]"
  by (simp add: MAX_FRAMES_IN_FLIGHT_def upt_rec)

lemma slots_replicate: "replicate MAX_FRAMES_IN_FLIGHT x = [x, x]"
  by (simp add: MAX_FRAMES_IN_FLIGHT_def numeral_2_eq_2)

lemma create_sync_objects_Inr:
  assumes "create_sync_objects n results = Inr s"
  shows "s = \<lparr>image_avaiable_semaphores = [1, 4],
        render_finished_semaphores = [2, 5],
        in_flight_fences = [3, 6],
        images_in_flight = replicate n VK_NULL_HANDLE,
        current_frame = 0,
        pc = PC_WaitSlotFence,
        image_index = 0,
        next_handle = 7,
        fence_signaled = [3 \<mapsto> True, 6 \<mapsto> True],
        pending = []\<rparr>"
proof -
  obtain a1 a2 a3 where r0: "results 0 = (a1, a2, a3)" by (cases "results 0")
  obtain b1 b2 b3 where r1: "results (Suc 0) = (b1, b2, b3)" by (cases "results (Suc 0)")
  from assms show ?thesis
    by (simp add: create_sync_objects_def slots_upt slots_replicate r0 r1
        vkCreateSemaphore_def vkCreateFence_def eval_nat_numeral split: if_splits)
qed

lemma create_sync_objects_success:
  "create_sync_objects n (\<lambda>i. (VK_SUCCESS, VK_SUCCESS, VK_SUCCESS)) =
     Inr \<lparr>image_avaiable_semaphores = [1, 4],
        render_finished_semaphores = [2, 5],
        in_flight_fences = [3, 6],
        images_in_flight = replicate n VK_NULL_HANDLE,
        current_frame = 0,
        pc = PC_WaitSlotFence,
        image_index = 0,
        next_handle = 7,
        fence_signaled = [3 \<mapsto> True, 6 \<mapsto> True],
        pending = []\<rparr>"
  by (simp add: create_sync_objects_def slots_upt slots_replicate
      vkCreateSemaphore_def vkCreateFence_def eval_nat_numeral)

lemma frame_inv_init:
  assumes "create_sync_objects n results = Inr s"
  shows "frame_inv n s"
  unfolding create_sync_objects_Inr [OF assms]
  by (auto simp: frame_inv_def slots_wf_def pending_wf_def thread_wf_def slot_fence_def
      MAX_FRAMES_IN_FLIGHT_def VK_NULL_HANDLE_def)

subsection \<open>The statements that continue\<close>

text \<open>
  What is known when a statement of \<open>draw_frame\<close> continues. A wait that returns an
  error continues like one that found its fence signaled, and a reset that returns an
  error continues with the fence as it was: \<open>draw_frame\<close> reads neither result.
\<close>

lemma cpu_step_ContinuesE:
  assumes "cpu_step r s = Continues s'"
  obtains
    (wait_slot) "pc s = PC_WaitSlotFence"
      "fence_signaled s (slot_fence s) \<noteq> None"
      "result r = VK_SUCCESS \<longrightarrow> fence_signaled s (slot_fence s) = Some True"
      "s' = s\<lparr>pc := PC_Acquire\<rparr>"
  | (acquire) "pc s = PC_Acquire" "ready r"
      "s' = s\<lparr>image_index := acquired_image r, pc := PC_WaitImageFence\<rparr>"
  | (wait_image) "pc s = PC_WaitImageFence"
      "image_index s < length (images_in_flight s)"
      "images_in_flight s ! image_index s = VK_NULL_HANDLE \<or>
       (result r = VK_SUCCESS \<longrightarrow>
          fence_signaled s (images_in_flight s ! image_index s) = Some True)"
      "s' = s\<lparr>pc := PC_MarkImage\<rparr>"
  | (mark) "pc s = PC_MarkImage"
      "image_index s < length (images_in_flight s)"
      "s' = s\<lparr>images_in_flight := (images_in_flight s)[image_index s := slot_fence s],
               pc := PC_ResetFence\<rparr>"
  | (reset) "pc s = PC_ResetFence" "result r = VK_SUCCESS"
      "fence_signaled s (slot_fence s) \<noteq> None"
      "s' = s\<lparr>fence_signaled := (fence_signaled s)(slot_fence s \<mapsto> False), pc := PC_Submit\<rparr>"
  | (reset_failed) "pc s = PC_ResetFence" "result r \<noteq> VK_SUCCESS"
      "s' = s\<lparr>pc := PC_Submit\<rparr>"
  | (submit) "pc s = PC_Submit" "result r = VK_SUCCESS"
      "image_index s < length (images_in_flight s)"
      "s' = s\<lparr>pending := pending s @
               [\<lparr>wait_semaphore = image_avaiable_semaphores s ! current_frame s,
                 command_buffer = image_index s,
                 signal_semaphore = render_finished_semaphores s ! current_frame s,
                 signal_fence = slot_fence s\<rparr>],
             pc := PC_Present\<rparr>"
  | (present) "pc s = PC_Present" "s' = s\<lparr>pc := PC_QueueWaitIdle\<rparr>"
  | (wait_idle) "pc s = PC_QueueWaitIdle" "ready r" "s' = s\<lparr>pc := PC_Advance\<rparr>"
  | (advance) "pc s = PC_Advance"
      "s' = s\<lparr>current_frame := (current_frame s + 1) mod MAX_FRAMES_IN_FLIGHT,
               pc := PC_WaitSlotFence\<rparr>"
proof (cases "pc s")
  case PC_WaitSlotFence
  with assms wait_slot show ?thesis
    by (auto simp: cpu_step_def draw_frame_def slot_fence_def
        split: if_splits option.splits)
next
  case PC_Acquire
  with assms acquire show ?thesis
    by (auto simp: cpu_step_def draw_frame_def split: if_splits)
next
  case PC_WaitImageFence
  with assms wait_image show ?thesis
    by (auto simp: cpu_step_def draw_frame_def split: if_splits option.splits)
next
  case PC_MarkImage
  with assms mark show ?thesis
    by (auto simp: cpu_step_def draw_frame_def slot_fence_def split: if_splits)
next
  case PC_ResetFence
  with assms reset reset_failed show ?thesis
    by (auto simp: cpu_step_def draw_frame_def slot_fence_def
        split: if_splits option.splits)
next
  case PC_Submit
  with assms submit show ?thesis
    by (auto simp: cpu_step_def draw_frame_def slot_fence_def split: if_splits)
next
  case PC_Present
  with assms present show ?thesis by (auto simp: cpu_step_def draw_frame_def)
next
  case PC_QueueWaitIdle
  with assms wait_idle show ?thesis
    by (auto simp: cpu_step_def draw_frame_def split: if_splits)
next
  case PC_Advance
  with assms advance show ?thesis by (auto simp: cpu_step_def draw_frame_def)
qed

text \<open>The same when no wait and no reset returns an error.\<close>

lemma cpu_step_obeyedE:
  assumes "cpu_step r s = Continues s'" and "fences_obeyed r s"
  obtains
    (wait_slot) "pc s = PC_WaitSlotFence"
      "fence_signaled s (slot_fence s) = Some True"
      "s' = s\<lparr>pc := PC_Acquire\<rparr>"
  | (acquire) "pc s = PC_Acquire" "ready r"
      "s' = s\<lparr>image_index := acquired_image r, pc := PC_WaitImageFence\<rparr>"
  | (wait_image) "pc s = PC_WaitImageFence"
      "image_index s < length (images_in_flight s)"
      "images_in_flight s ! image_index s = VK_NULL_HANDLE \<or>
       fence_signaled s (images_in_flight s ! image_index s) = Some True"
      "s' = s\<lparr>pc := PC_MarkImage\<rparr>"
  | (mark) "pc s = PC_MarkImage"
      "image_index s < length (images_in_flight s)"
      "s' = s\<lparr>images_in_flight := (images_in_flight s)[image_index s := slot_fence s],
               pc := PC_ResetFence\<rparr>"
  | (reset) "pc s = PC_ResetFence"
      "fence_signaled s (slot_fence s) \<noteq> None"
      "s' = s\<lparr>fence_signaled := (fence_signaled s)(slot_fence s \<mapsto> False), pc := PC_Submit\<rparr>"
  | (submit) "pc s = PC_Submit" "result r = VK_SUCCESS"
      "image_index s < length (images_in_flight s)"
      "s' = s\<lparr>pending := pending s @
               [\<lparr>wait_semaphore = image_avaiable_semaphores s ! current_frame s,
                 command_buffer = image_index s,
                 signal_semaphore = render_finished_semaphores s ! current_frame s,
                 signal_fence = slot_fence s\<rparr>],
             pc := PC_Present\<rparr>"
  | (present) "pc s = PC_Present" "s' = s\<lparr>pc := PC_QueueWaitIdle\<rparr>"
  | (wait_idle) "pc s = PC_QueueWaitIdle" "ready r" "s' = s\<lparr>pc := PC_Advance\<rparr>"
  | (advance) "pc s = PC_Advance"
      "s' = s\<lparr>current_frame := (current_frame s + 1) mod MAX_FRAMES_IN_FLIGHT,
               pc := PC_WaitSlotFence\<rparr>"
  using assms(1)
proof (cases rule: cpu_step_ContinuesE)
  case wait_slot
  with assms(2) have "fence_signaled s (slot_fence s) = Some True"
    by (simp add: fences_obeyed_def)
  with wait_slot that(1) show ?thesis by blast
next
  case wait_image
  with assms(2) have "images_in_flight s ! image_index s = VK_NULL_HANDLE \<or>
       fence_signaled s (images_in_flight s ! image_index s) = Some True"
    by (auto simp: fences_obeyed_def)
  with wait_image that(3) show ?thesis by blast
next
  case reset_failed
  with assms(2) show ?thesis by (simp add: fences_obeyed_def)
qed (use that in blast)+

subsection \<open>The invariant is kept by the control thread\<close>

text \<open>
  The sizes of the vectors and the slot fences are kept by every statement. What is known
  of the pending batches and of the control thread is kept as long as no wait and no reset
  returns an error.
\<close>

lemma slot_fence_in_flight:
  "slots_wf n s \<Longrightarrow> slot_fence s \<in> set (in_flight_fences s)"
  by (simp add: slots_wf_def slot_fence_def)

lemma pending_not_signaled:
  "pending_wf n s \<Longrightarrow> b \<in> set (pending s) \<Longrightarrow> fence_signaled s (signal_fence b) = Some False"
  by (simp add: pending_wf_def)

text \<open>
  When the control thread is about to record the owner of the acquired image, no pending
  batch renders into that image.
\<close>

lemma mark_image_free:
  assumes "frame_inv n s" and "pc s = PC_MarkImage" and "b \<in> set (pending s)"
  shows "command_buffer b \<noteq> image_index s"
proof
  assume eq: "command_buffer b = image_index s"
  from assms have own: "images_in_flight s ! image_index s = signal_fence b"
    and unsig: "fence_signaled s (signal_fence b) = Some False"
    and slot: "signal_fence b \<in> set (in_flight_fences s)"
    using eq by (auto simp: frame_inv_def pending_wf_def)
  from assms(1) slot have "signal_fence b \<noteq> VK_NULL_HANDLE"
    by (auto simp: frame_inv_def slots_wf_def)
  moreover from assms(1,2)
  have "images_in_flight s ! image_index s = VK_NULL_HANDLE \<or>
        fence_signaled s (images_in_flight s ! image_index s) = Some True"
    by (simp add: frame_inv_def thread_wf_def)
  ultimately show False using own unsig by simp
qed

lemma slots_wf_cpu_step:
  assumes wf: "slots_wf n s" and step: "cpu_step r s = Continues s'"
  shows "slots_wf n s'"
  using step
proof (cases rule: cpu_step_ContinuesE)
  case mark
  have "set ((images_in_flight s)[image_index s := slot_fence s])
          \<subseteq> insert (slot_fence s) (set (images_in_flight s))"
    by (rule set_update_subset_insert)
  with wf slot_fence_in_flight [OF wf] mark show ?thesis
    by (auto simp: slots_wf_def)
next
  case advance
  with wf show ?thesis
    by (simp add: slots_wf_def MAX_FRAMES_IN_FLIGHT_def)
qed (use wf in \<open>auto simp: slots_wf_def\<close>)

lemma pending_wf_cpu_step:
  assumes inv: "frame_inv n s" and step: "cpu_step r s = Continues s'"
    and ok: "fences_obeyed r s"
  shows "pending_wf n s'"
  using step ok
proof (cases rule: cpu_step_obeyedE)
  case mark
  have "images_in_flight s' ! command_buffer b = images_in_flight s ! command_buffer b"
    if "b \<in> set (pending s)" for b
    using mark_image_free [OF inv mark(1) that] mark by simp
  with inv mark show ?thesis
    by (simp add: frame_inv_def pending_wf_def)
next
  case reset
  with inv show ?thesis
    by (simp add: frame_inv_def pending_wf_def)
next
  case submit
  from inv submit(1) have
    t: "image_index s < n" "images_in_flight s ! image_index s = slot_fence s"
       "\<forall>b\<in>set (pending s). command_buffer b \<noteq> image_index s"
       "fence_signaled s (slot_fence s) = Some False"
       "\<forall>b\<in>set (pending s). signal_fence b \<noteq> slot_fence s"
    by (simp_all add: frame_inv_def thread_wf_def)
  from inv have wf: "slots_wf n s" and pw: "pending_wf n s" by (simp_all add: frame_inv_def)
  from pw t slot_fence_in_flight [OF wf] submit show ?thesis
    by (auto simp: pending_wf_def)
qed (use inv in \<open>auto simp: frame_inv_def pending_wf_def\<close>)

lemma thread_wf_cpu_step:
  assumes inv: "frame_inv n s" and step: "cpu_step r s = Continues s'"
    and ok: "fences_obeyed r s"
  shows "thread_wf n s'"
  using step ok
proof (cases rule: cpu_step_obeyedE)
  case wait_slot
  then show ?thesis by (simp add: thread_wf_def slot_fence_def)
next
  case acquire
  with inv show ?thesis by (simp add: frame_inv_def thread_wf_def slot_fence_def)
next
  case wait_image
  with inv show ?thesis
    by (auto simp: frame_inv_def thread_wf_def slots_wf_def slot_fence_def)
next
  case mark
  from inv mark(1) have "fence_signaled s (slot_fence s) = Some True" "image_index s < n"
    by (simp_all add: frame_inv_def thread_wf_def)
  moreover from inv have "length (images_in_flight s) = n"
    by (simp add: frame_inv_def slots_wf_def)
  moreover have "\<forall>b\<in>set (pending s). command_buffer b \<noteq> image_index s"
    using mark_image_free [OF inv mark(1)] by blast
  ultimately show ?thesis using mark
    by (simp add: thread_wf_def slot_fence_def)
next
  case reset
  from inv reset(1) have
    t: "fence_signaled s (slot_fence s) = Some True" "image_index s < n"
       "images_in_flight s ! image_index s = slot_fence s"
       "\<forall>b\<in>set (pending s). command_buffer b \<noteq> image_index s"
    by (simp_all add: frame_inv_def thread_wf_def)
  from inv have pw: "pending_wf n s" by (simp add: frame_inv_def)
  have "signal_fence b \<noteq> slot_fence s" if "b \<in> set (pending s)" for b
    using pending_not_signaled [OF pw that] t(1) by auto
  with t reset show ?thesis
    by (simp add: thread_wf_def slot_fence_def)
qed (simp_all add: thread_wf_def)

lemma frame_inv_cpu_step:
  assumes "frame_inv n s" and "cpu_step r s = Continues s'" and "fences_obeyed r s"
  shows "frame_inv n s'"
  unfolding frame_inv_def
proof (intro conjI)
  from assms(1) have "slots_wf n s" by (simp add: frame_inv_def)
  then show "slots_wf n s'" using assms(2) by (rule slots_wf_cpu_step)
qed (rule pending_wf_cpu_step [OF assms] thread_wf_cpu_step [OF assms])+

subsection \<open>The invariant is kept by the device\<close>

lemma distinct_map_remove1:
  "distinct (map f xs) \<Longrightarrow> distinct (map f (remove1 x xs))"
proof (induction xs)
  case Nil
  then show ?case by simp
next
  case (Cons a xs)
  have "f ` set (remove1 x xs) \<subseteq> f ` set xs"
    using set_remove1_subset [of x xs] by blast
  with Cons show ?case by auto
qed

lemma map_remove1_fresh:
  assumes "distinct (map f xs)" and "x \<in> set xs" and "y \<in> set (remove1 x xs)"
  shows "f y \<noteq> f x"
proof -
  from assms(1) have d: "distinct xs" and inj: "inj_on f (set xs)"
    by (simp_all add: distinct_map)
  from d assms(3) have "y \<noteq> x" "y \<in> set xs" by auto
  with inj assms(2) show ?thesis by (auto dest: inj_onD)
qed

lemma gpu_complete_SomeE:
  assumes "gpu_complete b s = Some s'"
  obtains "b \<in> set (pending s)"
    "s' = s\<lparr>pending := remove1 b (pending s),
             fence_signaled := (fence_signaled s)(signal_fence b \<mapsto> True)\<rparr>"
  using assms by (auto simp: gpu_complete_def split: if_splits)

lemma slots_wf_gpu_complete:
  assumes wf: "slots_wf n s" and step: "gpu_complete b s = Some s'"
  shows "slots_wf n s'"
  using step wf by (auto elim!: gpu_complete_SomeE simp: slots_wf_def)

lemma pending_wf_gpu_complete:
  assumes inv: "frame_inv n s" and step: "gpu_complete b s = Some s'"
  shows "pending_wf n s'"
  using step
proof (cases rule: gpu_complete_SomeE)
  case 1
  from inv have pw: "pending_wf n s" by (simp add: frame_inv_def)
  then have df: "distinct (map signal_fence (pending s))"
    and dc: "distinct (map command_buffer (pending s))"
    by (simp_all add: pending_wf_def)
  have other: "signal_fence c \<noteq> signal_fence b" if "c \<in> set (remove1 b (pending s))" for c
    using map_remove1_fresh [OF df 1(1) that] .
  have sub: "c \<in> set (pending s)" if "c \<in> set (remove1 b (pending s))" for c
    using that set_remove1_subset [of b "pending s"] by blast
  show ?thesis
    unfolding pending_wf_def
  proof (intro conjI ballI)
    fix c assume c: "c \<in> set (pending s')"
    with 1 have c': "c \<in> set (remove1 b (pending s))" by simp
    from sub [OF c'] pw have
      "signal_fence c \<in> set (in_flight_fences s)"
      "fence_signaled s (signal_fence c) = Some False"
      "command_buffer c < n"
      "images_in_flight s ! command_buffer c = signal_fence c"
      by (simp_all add: pending_wf_def)
    with other [OF c'] 1 show "signal_fence c \<in> set (in_flight_fences s')"
      "fence_signaled s' (signal_fence c) = Some False"
      "command_buffer c < n"
      "images_in_flight s' ! command_buffer c = signal_fence c"
      by simp_all
  next
    show "distinct (map signal_fence (pending s'))"
      using 1 df by (simp add: distinct_map_remove1)
    show "distinct (map command_buffer (pending s'))"
      using 1 dc by (simp add: distinct_map_remove1)
  qed
qed

lemma thread_wf_gpu_complete:
  assumes inv: "frame_inv n s" and step: "gpu_complete b s = Some s'"
  shows "thread_wf n s'"
  using step
proof (cases rule: gpu_complete_SomeE)
  case 1
  from inv have tw: "thread_wf n s" by (simp add: frame_inv_def)
  have sub: "c \<in> set (pending s)" if "c \<in> set (remove1 b (pending s))" for c
    using that set_remove1_subset [of b "pending s"] by blast
  have sf: "slot_fence s' = slot_fence s" "pc s' = pc s" "image_index s' = image_index s"
    "images_in_flight s' = images_in_flight s"
    using 1 by (simp_all add: slot_fence_def)
  have fs: "fence_signaled s' f = Some True" if "fence_signaled s f = Some True" for f
    using that 1 by simp
  have pend: "c \<in> set (pending s)" if "c \<in> set (pending s')" for c
    using that 1 sub by simp
  show ?thesis
    unfolding thread_wf_def sf
  proof (intro conjI impI)
    assume "pc s \<in> {PC_Acquire, PC_WaitImageFence, PC_MarkImage, PC_ResetFence}"
    with tw have "fence_signaled s (slot_fence s) = Some True"
      unfolding thread_wf_def by blast
    then show "fence_signaled s' (slot_fence s) = Some True" by (rule fs)
  next
    assume "pc s \<in> {PC_MarkImage, PC_ResetFence, PC_Submit}"
    with tw show "image_index s < n" unfolding thread_wf_def by blast
  next
    assume "pc s = PC_MarkImage"
    with tw have "images_in_flight s ! image_index s = VK_NULL_HANDLE \<or>
        fence_signaled s (images_in_flight s ! image_index s) = Some True"
      unfolding thread_wf_def by blast
    then show "images_in_flight s ! image_index s = VK_NULL_HANDLE \<or>
        fence_signaled s' (images_in_flight s ! image_index s) = Some True"
      using fs by blast
  next
    assume "pc s \<in> {PC_ResetFence, PC_Submit}"
    with tw have "images_in_flight s ! image_index s = slot_fence s"
      "\<forall>c\<in>set (pending s). command_buffer c \<noteq> image_index s"
      unfolding thread_wf_def by blast+
    with pend show "images_in_flight s ! image_index s = slot_fence s"
      and "\<forall>c\<in>set (pending s'). command_buffer c \<noteq> image_index s"
      by blast+
  next
    assume at: "pc s = PC_Submit"
    with tw have u: "fence_signaled s (slot_fence s) = Some False"
      and fresh: "\<forall>c\<in>set (pending s). signal_fence c \<noteq> slot_fence s"
      unfolding thread_wf_def by blast+
    from fresh 1(1) have "signal_fence b \<noteq> slot_fence s" by blast
    with u 1 have "fence_signaled s' (slot_fence s) = Some False" by simp
    with fresh pend show "fence_signaled s' (slot_fence s) = Some False"
      and "\<forall>c\<in>set (pending s'). signal_fence c \<noteq> slot_fence s"
      by blast+
  qed
qed

lemma frame_inv_gpu_complete:
  assumes "frame_inv n s" and "gpu_complete b s = Some s'"
  shows "frame_inv n s'"
  unfolding frame_inv_def
proof (intro conjI)
  from assms(1) have "slots_wf n s" by (simp add: frame_inv_def)
  then show "slots_wf n s'" using assms(2) by (rule slots_wf_gpu_complete)
qed (rule pending_wf_gpu_complete [OF assms] thread_wf_gpu_complete [OF assms])+

subsection \<open>Every state reached satisfies the invariant\<close>

lemma reach_obeyed_frame_inv: "reach_obeyed n s \<Longrightarrow> frame_inv n s"
  by (induction rule: reach_obeyed.induct)
     (auto intro: frame_inv_init frame_inv_cpu_step frame_inv_gpu_complete)

lemma reach_slots_wf: "reach n h s \<Longrightarrow> slots_wf n s"
proof (induction rule: reach.induct)
  case (reach_init results s)
  then have "frame_inv n s" by (rule frame_inv_init)
  then show ?case by (simp add: frame_inv_def)
next
  case (reach_cpu h s r s')
  then show ?case by (blast intro: slots_wf_cpu_step)
next
  case (reach_gpu h s b s')
  then show ?case by (blast intro: slots_wf_gpu_complete)
qed

subsection \<open>Schedules\<close>

lemma create_sync_objects_sync_created:
  "create_sync_objects n sync_created = Inr (started n)"
  unfolding sync_created_def started_def by (rule create_sync_objects_success)

lemma reach_started: "reach n [] (started n)"
  by (rule reach_init [OF create_sync_objects_sync_created])

text \<open>
  The run of a schedule is a run of the step relation, with the states it passed through.
\<close>

lemma run_reach_visited:
  "reach n h s \<Longrightarrow> run es s = Continues s' \<Longrightarrow> reach n (h @ visited es s) s'"
proof (induction es arbitrary: h s)
  case Nil
  then show ?case by simp
next
  case (Cons e es)
  show ?case
  proof (cases e)
    case (Cpu r)
    with Cons.prems obtain t where t: "cpu_step r s = Continues t" "run es t = Continues s'"
      by (auto split: outcome.splits)
    from Cons.IH [OF reach_cpu [OF Cons.prems(1) t(1)] t(2)] Cpu t(1) show ?thesis by simp
  next
    case (Gpu b)
    show ?thesis
    proof (cases "gpu_complete b s")
      case None
      with Gpu Cons.prems Cons.IH show ?thesis by simp
    next
      case (Some t)
      with Gpu Cons.prems have "run es t = Continues s'" by simp
      from Cons.IH [OF reach_gpu [OF Cons.prems(1) Some] this] Gpu Some show ?thesis by simp
    qed
  qed
qed


text \<open>The definitions that evaluate a schedule.\<close>

lemmas run_simps = frame_events_def started_def answer_def busy_def cpu_step_def
  draw_frame_def gpu_complete_def VK_NULL_HANDLE_def MAX_FRAMES_IN_FLIGHT_def

lemmas calls_simps = calls_def call_of_def

subsection \<open>Failures reported by the driver\<close>

text \<open>
  A failure reported by the submission ends the program with a failure status: the
  result is tested, and the exception reaches \<open>main\<close>.
\<close>

lemma draw_frame_throws_on_submit_failure:
  "res \<noteq> VK_SUCCESS \<Longrightarrow>
   run (frame_events VK_SUCCESS 0 res VK_SUCCESS) (started 3) =
     Throws Failed_to_submit_draw_command_buffer \<and>
   main (run (frame_events VK_SUCCESS 0 res VK_SUCCESS) (started 3)) = Some EXIT_FAILURE"
  by (simp add: run_simps main_def)

text \<open>
  Claim C6 asks the same of the acquisition and of the presentation; this is the code at
  the failing inputs. When \<open>vkQueuePresentKHR\<close> reports a lost
  device, or \<open>vkAcquireNextImageKHR\<close> an out-of-date surface, the frame runs to its end
  exactly as it does when both succeed: nothing is thrown, the next frame is started, and
  a program whose window is closed after this frame exits with \<open>EXIT_SUCCESS\<close>.
\<close>

theorem draw_frame_ignores_acquire_and_present_failure:
  "run (frame_events VK_SUCCESS 0 VK_SUCCESS VK_ERROR_DEVICE_LOST) (started 3) =
     run (frame_events VK_SUCCESS 0 VK_SUCCESS VK_SUCCESS) (started 3) \<and>
   run (frame_events VK_ERROR_OUT_OF_DATE_KHR 0 VK_SUCCESS VK_SUCCESS) (started 3) =
     run (frame_events VK_SUCCESS 0 VK_SUCCESS VK_SUCCESS) (started 3) \<and>
   run (frame_events VK_SUCCESS 0 VK_SUCCESS VK_ERROR_DEVICE_LOST) (started 3) =
     Continues
       ((started 3)\<lparr>images_in_flight := [3, VK_NULL_HANDLE, VK_NULL_HANDLE],
          current_frame := 1,
          fence_signaled := [3 \<mapsto> False, 6 \<mapsto> True],
          pending := [\<lparr>wait_semaphore = 1, command_buffer = 0,
                       signal_semaphore = 2, signal_fence = 3\<rparr>]\<rparr>) \<and>
   main (run (frame_events VK_SUCCESS 0 VK_SUCCESS VK_ERROR_DEVICE_LOST) (started 3)) =
     Some EXIT_SUCCESS"
  by (simp add: run_simps main_def eval_nat_numeral fun_upd_twist)

subsection \<open>The calls of an iteration\<close>






lemma calls_image_reused:
  "calls (visited image_reused (started 3)) =
     [vkWaitForFences 3 UINT64_MAX,
      vkAcquireNextImageKHR UINT64_MAX 1,
      vkResetFences 3,
      vkQueueSubmit graphics_queue
        \<lparr>wait_semaphore = 1, command_buffer = 0, signal_semaphore = 2, signal_fence = 3\<rparr>,
      vkQueuePresentKHR present_queue 2 0,
      vkQueueWaitIdle present_queue,
      vkWaitForFences 6 UINT64_MAX,
      vkAcquireNextImageKHR UINT64_MAX 4,
      vkWaitForFences 3 UINT64_MAX,
      vkResetFences 6,
      vkQueueSubmit graphics_queue
        \<lparr>wait_semaphore = 4, command_buffer = 0, signal_semaphore = 5, signal_fence = 6\<rparr>,
      vkQueuePresentKHR present_queue 5 0,
      vkQueueWaitIdle present_queue]"
  by (simp add: image_reused_def run_simps calls_simps eval_nat_numeral)



subsection \<open>Frames in flight\<close>

text \<open>
  Two frames are submitted and none has completed. While the wait for the fence of its
  slot returns \<open>VK_SUCCESS\<close> only, the third frame waits until the device has completed
  the first.
\<close>

lemma run_two_frames:
  "run two_frames (started 3) =
     Continues
       ((started 3)\<lparr>images_in_flight := [3, 6, VK_NULL_HANDLE],
          current_frame := 1,
          pc := PC_Present,
          image_index := 1,
          fence_signaled := [3 \<mapsto> False, 6 \<mapsto> False],
          pending := [\<lparr>wait_semaphore = 1, command_buffer = 0,
                       signal_semaphore = 2, signal_fence = 3\<rparr>,
                      \<lparr>wait_semaphore = 4, command_buffer = 1,
                       signal_semaphore = 5, signal_fence = 6\<rparr>]\<rparr>)"
  by (simp add: two_frames_def run_simps eval_nat_numeral fun_upd_twist)

lemma third_frame_waits:
  "run (two_frames @ drop 6 (frame_events VK_SUCCESS 1 VK_SUCCESS VK_SUCCESS) @
        [Cpu (answer VK_SUCCESS 0)]) (started 3) = Blocks \<and>
   run (two_frames @ drop 6 (frame_events VK_SUCCESS 1 VK_SUCCESS VK_SUCCESS) @
        [Gpu \<lparr>wait_semaphore = 1, command_buffer = 0, signal_semaphore = 2, signal_fence = 3\<rparr>,
         Cpu (answer VK_SUCCESS 0)]) (started 3) =
     Continues
       ((started 3)\<lparr>images_in_flight := [3, 6, VK_NULL_HANDLE],
          pc := PC_Acquire,
          image_index := 1,
          fence_signaled := [3 \<mapsto> True, 6 \<mapsto> False],
          pending := [\<lparr>wait_semaphore = 4, command_buffer = 1,
                       signal_semaphore = 5, signal_fence = 6\<rparr>]\<rparr>)"
  by (simp add: two_frames_def run_simps eval_nat_numeral fun_upd_twist)


text \<open>
  The same state is reached when the \<open>vkResetFences\<close> of the first frame returns an
  error: the fence of slot 0 stays signaled, and the third frame finds it so.
\<close>

lemma third_submission_after_failed_reset:
  "run first_frame_unreset (started 3) =
     Continues
       ((started 3)\<lparr>images_in_flight := [3, 6, 3],
          pc := PC_Present,
          image_index := 2,
          fence_signaled := [3 \<mapsto> False, 6 \<mapsto> False],
          pending := [\<lparr>wait_semaphore = 1, command_buffer = 0,
                       signal_semaphore = 2, signal_fence = 3\<rparr>,
                      \<lparr>wait_semaphore = 4, command_buffer = 1,
                       signal_semaphore = 5, signal_fence = 6\<rparr>,
                      \<lparr>wait_semaphore = 1, command_buffer = 2,
                       signal_semaphore = 2, signal_fence = 3\<rparr>]\<rparr>)"
  by (simp add: first_frame_unreset_def run_simps eval_nat_numeral fun_upd_twist)

text \<open>
  As long as no wait and no reset returns an error the bound holds: at most
  \<open>MAX_FRAMES_IN_FLIGHT\<close> frame slots have a fence that is not signaled, and at most
  \<open>MAX_FRAMES_IN_FLIGHT\<close> submitted batches have not completed.
\<close>

lemma frames_in_flight_bounded_when_obeyed:
  assumes "reach_obeyed n s"
  shows "card (submitted_slots s) \<le> MAX_FRAMES_IN_FLIGHT \<and>
         length (pending s) \<le> MAX_FRAMES_IN_FLIGHT"
proof
  from assms have inv: "frame_inv n s" by (rule reach_obeyed_frame_inv)
  then have len: "length (in_flight_fences s) = MAX_FRAMES_IN_FLIGHT"
    and dist: "distinct (in_flight_fences s)"
    by (simp_all add: frame_inv_def slots_wf_def)
  have "submitted_slots s \<subseteq> {..<MAX_FRAMES_IN_FLIGHT}"
    using len by (auto simp: submitted_slots_def)
  then have "card (submitted_slots s) \<le> card {..<MAX_FRAMES_IN_FLIGHT}"
    by (intro card_mono) auto
  then show "card (submitted_slots s) \<le> MAX_FRAMES_IN_FLIGHT" by simp
  from inv have d: "distinct (map signal_fence (pending s))"
    and sub: "set (map signal_fence (pending s)) \<subseteq> set (in_flight_fences s)"
    by (auto simp: frame_inv_def pending_wf_def)
  have "length (pending s) = card (set (map signal_fence (pending s)))"
    using distinct_card [OF d] by simp
  also have "\<dots> \<le> card (set (in_flight_fences s))"
    using sub by (intro card_mono) auto
  also have "\<dots> = MAX_FRAMES_IN_FLIGHT"
    using distinct_card [OF dist] len by simp
  finally show "length (pending s) \<le> MAX_FRAMES_IN_FLIGHT" .
qed

subsection \<open>Owners of the swap chain images\<close>


text \<open>
  As long as no wait and no reset returns an error: no image is claimed by two different
  frame slots; when the control thread is about to record the fence of the current slot
  as the owner of the acquired image, the entry of that image is null or a signaled fence;
  no two pending batches render into the same image, and the entry of the image of a
  pending batch is the fence of that batch.
\<close>

lemma image_owner_when_obeyed:
  assumes "reach_obeyed n s"
  shows "(\<forall>i<n. \<forall>j<MAX_FRAMES_IN_FLIGHT. \<forall>k<MAX_FRAMES_IN_FLIGHT.
            claims_image s j i \<and> claims_image s k i \<longrightarrow> j = k) \<and>
         (pc s = PC_MarkImage \<longrightarrow>
            image_index s < n \<and>
            (images_in_flight s ! image_index s = VK_NULL_HANDLE \<or>
             fence_signaled s (images_in_flight s ! image_index s) = Some True)) \<and>
         distinct (map command_buffer (pending s)) \<and>
         (\<forall>b\<in>set (pending s). images_in_flight s ! command_buffer b = signal_fence b)"
proof (intro conjI allI impI ballI)
  from assms have inv: "frame_inv n s" by (rule reach_obeyed_frame_inv)
  then have len: "length (in_flight_fences s) = MAX_FRAMES_IN_FLIGHT"
    and dist: "distinct (in_flight_fences s)"
    by (simp_all add: frame_inv_def slots_wf_def)
  show "j = k"
    if "j < MAX_FRAMES_IN_FLIGHT" "k < MAX_FRAMES_IN_FLIGHT"
      "claims_image s j i \<and> claims_image s k i" for i j k
  proof -
    from that(3) have "in_flight_fences s ! j = in_flight_fences s ! k"
      by (simp add: claims_image_def)
    with dist that(1,2) len show ?thesis by (simp add: nth_eq_iff_index_eq)
  qed
  from inv have tw: "thread_wf n s" and pw: "pending_wf n s" by (simp_all add: frame_inv_def)
  show "image_index s < n" if "pc s = PC_MarkImage"
    using tw that by (simp add: thread_wf_def)
  show "images_in_flight s ! image_index s = VK_NULL_HANDLE \<or>
        fence_signaled s (images_in_flight s ! image_index s) = Some True"
    if "pc s = PC_MarkImage"
    using tw that by (simp add: thread_wf_def)
  show "distinct (map command_buffer (pending s))"
    using pw by (simp add: pending_wf_def)
  show "images_in_flight s ! command_buffer b = signal_fence b" if "b \<in> set (pending s)" for b
    using pw that by (simp add: pending_wf_def)
qed

subsection \<open>The first use of a frame slot and of an image\<close>

text \<open>
  A fence of a frame slot stays signaled until the control thread resets it, and an entry
  of \<open>images_in_flight_\<close> stays null until the control thread records an owner.
\<close>

lemma in_flight_fences_cpu_step:
  "cpu_step r s = Continues s' \<Longrightarrow> in_flight_fences s' = in_flight_fences s"
  by (erule cpu_step_ContinuesE) simp_all

lemma reach_first_use:
  assumes "reach n h s"
  shows "(\<forall>k<MAX_FRAMES_IN_FLIGHT.
            (\<forall>t\<in>set h. pc t = PC_ResetFence \<longrightarrow> current_frame t \<noteq> k) \<longrightarrow>
            fence_signaled s (in_flight_fences s ! k) = Some True) \<and>
         (\<forall>i<n.
            (\<forall>t\<in>set h. pc t = PC_MarkImage \<longrightarrow> image_index t \<noteq> i) \<longrightarrow>
            images_in_flight s ! i = VK_NULL_HANDLE)"
  using assms
proof (induction rule: reach.induct)
  case (reach_init results s)
  show ?case
    unfolding create_sync_objects_Inr [OF reach_init]
    by (auto simp: MAX_FRAMES_IN_FLIGHT_def less_2_cases_iff)
next
  case (reach_cpu h s r s')
  from reach_cpu.hyps(1) have inv: "slots_wf n s" by (rule reach_slots_wf)
  then have len: "length (in_flight_fences s) = MAX_FRAMES_IN_FLIGHT"
    and dist: "distinct (in_flight_fences s)"
    and cur: "current_frame s < MAX_FRAMES_IN_FLIGHT"
    and imgs: "length (images_in_flight s) = n"
    by (simp_all add: slots_wf_def)
  show ?case
  proof (intro conjI allI impI)
    fix k assume k: "k < MAX_FRAMES_IN_FLIGHT"
      and fresh: "\<forall>t\<in>set (h @ [s]). pc t = PC_ResetFence \<longrightarrow> current_frame t \<noteq> k"
    from fresh k reach_cpu.IH
    have old: "fence_signaled s (in_flight_fences s ! k) = Some True" by simp
    from fresh have now: "pc s = PC_ResetFence \<Longrightarrow> current_frame s \<noteq> k" by simp
    from reach_cpu.hyps(2) show "fence_signaled s' (in_flight_fences s' ! k) = Some True"
    proof (cases rule: cpu_step_ContinuesE)
      case reset
      from now [OF reset(1)] dist k cur len
      have "in_flight_fences s ! k \<noteq> slot_fence s"
        by (simp add: slot_fence_def nth_eq_iff_index_eq)
      with old reset show ?thesis by simp
    qed (use old in simp_all)
  next
    fix i assume i: "i < n"
      and fresh: "\<forall>t\<in>set (h @ [s]). pc t = PC_MarkImage \<longrightarrow> image_index t \<noteq> i"
    from fresh i reach_cpu.IH
    have old: "images_in_flight s ! i = VK_NULL_HANDLE" by simp
    from fresh have now: "pc s = PC_MarkImage \<Longrightarrow> image_index s \<noteq> i" by simp
    from reach_cpu.hyps(2) show "images_in_flight s' ! i = VK_NULL_HANDLE"
    proof (cases rule: cpu_step_ContinuesE)
      case mark
      with now [OF mark(1)] old show ?thesis by simp
    qed (use old in simp_all)
  qed
next
  case (reach_gpu h s b s')
  from reach_gpu.hyps(2) have s': "s' = s\<lparr>pending := remove1 b (pending s),
      fence_signaled := (fence_signaled s)(signal_fence b \<mapsto> True)\<rparr>"
    by (rule gpu_complete_SomeE)
  from reach_gpu.IH show ?case unfolding s' by simp
qed

lemma slot_first_use:
  assumes "reach n h s" and "k < MAX_FRAMES_IN_FLIGHT"
    and "\<forall>t\<in>set h. pc t = PC_ResetFence \<longrightarrow> current_frame t \<noteq> k"
  shows "fence_signaled s (in_flight_fences s ! k) = Some True"
  using reach_first_use [OF assms(1), THEN conjunct1, THEN spec, THEN mp, OF assms(2)] assms(3)
  by (rule mp)

lemma image_first_use:
  assumes "reach n h s" and "i < n"
    and "\<forall>t\<in>set h. pc t = PC_MarkImage \<longrightarrow> image_index t \<noteq> i"
  shows "images_in_flight s ! i = VK_NULL_HANDLE"
  using reach_first_use [OF assms(1), THEN conjunct2, THEN spec, THEN mp, OF assms(2)] assms(3)
  by (rule mp)

lemma started_fences:
  assumes "reach n [] s" and "k < MAX_FRAMES_IN_FLIGHT"
  shows "fence_signaled s (in_flight_fences s ! k) = Some True"
  by (rule slot_first_use [OF assms]) simp

lemma started_images:
  assumes "reach n [] s"
  shows "images_in_flight s = replicate n VK_NULL_HANDLE"
proof (rule nth_equalityI)
  from reach_slots_wf [OF assms] show len: "length (images_in_flight s) = length (replicate n VK_NULL_HANDLE)"
    by (simp add: slots_wf_def)
  fix i assume "i < length (images_in_flight s)"
  with len have i: "i < n" by simp
  have "images_in_flight s ! i = VK_NULL_HANDLE"
    by (rule image_first_use [OF assms i]) simp
  with i show "images_in_flight s ! i = replicate n VK_NULL_HANDLE ! i" by simp
qed

lemma first_slot_wait:
  assumes "reach n h s" and "pc s = PC_WaitSlotFence"
    and "\<forall>t\<in>set h. pc t = PC_ResetFence \<longrightarrow> current_frame t \<noteq> current_frame s"
  shows "cpu_step r s = Continues (s\<lparr>pc := PC_Acquire\<rparr>)"
proof -
  from reach_slots_wf [OF assms(1)]
  have len: "length (in_flight_fences s) = MAX_FRAMES_IN_FLIGHT"
    and cur: "current_frame s < MAX_FRAMES_IN_FLIGHT"
    by (simp_all add: slots_wf_def)
  have "fence_signaled s (in_flight_fences s ! current_frame s) = Some True"
    using assms(1) cur assms(3) by (rule slot_first_use)
  with assms(2) cur len show ?thesis
    by (simp add: cpu_step_def draw_frame_def)
qed

lemma first_image_wait:
  assumes "reach n h s" and "pc s = PC_WaitImageFence" and "image_index s < n"
    and "\<forall>t\<in>set h. pc t = PC_MarkImage \<longrightarrow> image_index t \<noteq> image_index s"
  shows "cpu_step r s = Continues (s\<lparr>pc := PC_MarkImage\<rparr>)"
proof -
  from reach_slots_wf [OF assms(1)]
  have imgs: "length (images_in_flight s) = n"
    by (simp add: slots_wf_def)
  have "images_in_flight s ! image_index s = VK_NULL_HANDLE"
    using assms(1,3,4) by (rule image_first_use)
  with assms(2,3) imgs show ?thesis by (simp add: cpu_step_def draw_frame_def)
qed

text \<open>
  Claim C10. After \<open>create_sync_objects\<close> every fence of a frame slot is signaled and
  every entry of \<open>images_in_flight_\<close> is null. Hence the wait at the start of
  \<open>draw_frame\<close> returns at once when the fence of the current slot has never been
  reset, and so does the test of the owner of the acquired image when no owner of that
  image has ever been recorded.
\<close>

theorem first_use_does_not_block:
  assumes "reach n h s"
  shows "(h = [] \<longrightarrow>
            (\<forall>k<MAX_FRAMES_IN_FLIGHT. fence_signaled s (in_flight_fences s ! k) = Some True) \<and>
            images_in_flight s = replicate n VK_NULL_HANDLE) \<and>
         (pc s = PC_WaitSlotFence \<and>
          (\<forall>t\<in>set h. pc t = PC_ResetFence \<longrightarrow> current_frame t \<noteq> current_frame s)
            \<longrightarrow> cpu_step r s = Continues (s\<lparr>pc := PC_Acquire\<rparr>)) \<and>
         (pc s = PC_WaitImageFence \<and> image_index s < n \<and>
          (\<forall>t\<in>set h. pc t = PC_MarkImage \<longrightarrow> image_index t \<noteq> image_index s)
            \<longrightarrow> cpu_step r s = Continues (s\<lparr>pc := PC_MarkImage\<rparr>))"
proof (intro conjI impI allI)
  fix k assume "h = []" and "k < MAX_FRAMES_IN_FLIGHT"
  with assms show "fence_signaled s (in_flight_fences s ! k) = Some True"
    by (intro started_fences) simp_all
next
  assume "h = []"
  with assms show "images_in_flight s = replicate n VK_NULL_HANDLE"
    by (intro started_images) simp
next
  assume "pc s = PC_WaitSlotFence \<and>
    (\<forall>t\<in>set h. pc t = PC_ResetFence \<longrightarrow> current_frame t \<noteq> current_frame s)"
  then show "cpu_step r s = Continues (s\<lparr>pc := PC_Acquire\<rparr>)"
    by (elim conjE) (rule first_slot_wait [OF assms])
next
  assume "pc s = PC_WaitImageFence \<and> image_index s < n \<and>
    (\<forall>t\<in>set h. pc t = PC_MarkImage \<longrightarrow> image_index t \<noteq> image_index s)"
  then show "cpu_step r s = Continues (s\<lparr>pc := PC_MarkImage\<rparr>)"
    by (elim conjE) (rule first_image_wait [OF assms])
qed

text \<open>
  After a whole first frame on image 0 the second frame slot is used for the first time,
  and after the acquisition of image 1 that image is: neither wait blocks, although the
  device has completed nothing.
\<close>

lemma run_first_frame:
  "run (frame_events VK_SUCCESS 0 VK_SUCCESS VK_SUCCESS) (started 3) =
     Continues
       ((started 3)\<lparr>images_in_flight := [3, VK_NULL_HANDLE, VK_NULL_HANDLE],
          current_frame := 1,
          fence_signaled := [3 \<mapsto> False, 6 \<mapsto> True],
          pending := [\<lparr>wait_semaphore = 1, command_buffer = 0,
                       signal_semaphore = 2, signal_fence = 3\<rparr>]\<rparr>)"
  by (simp add: run_simps eval_nat_numeral fun_upd_twist)

lemma run_second_acquired:
  "run second_acquired (started 3) =
     Continues
       ((started 3)\<lparr>images_in_flight := [3, VK_NULL_HANDLE, VK_NULL_HANDLE],
          current_frame := 1,
          pc := PC_WaitImageFence,
          image_index := 1,
          fence_signaled := [3 \<mapsto> False, 6 \<mapsto> True],
          pending := [\<lparr>wait_semaphore = 1, command_buffer = 0,
                       signal_semaphore = 2, signal_fence = 3\<rparr>]\<rparr>)"
  by (simp add: second_acquired_def run_simps eval_nat_numeral fun_upd_twist)

lemma visited_first_frame:
  "\<forall>t\<in>set (visited (frame_events VK_SUCCESS 0 VK_SUCCESS VK_SUCCESS) (started 3)).
     pc t = PC_ResetFence \<longrightarrow> current_frame t \<noteq> 1"
  by (simp add: run_simps)

lemma visited_second_acquired:
  "\<forall>t\<in>set (visited second_acquired (started 3)). pc t = PC_MarkImage \<longrightarrow> image_index t \<noteq> 1"
  by (simp add: second_acquired_def run_simps)

theorem first_use_does_not_block_witness:
  "cpu_step busy
     ((started 3)\<lparr>images_in_flight := [3, VK_NULL_HANDLE, VK_NULL_HANDLE],
        current_frame := 1,
        fence_signaled := [3 \<mapsto> False, 6 \<mapsto> True],
        pending := [\<lparr>wait_semaphore = 1, command_buffer = 0,
                     signal_semaphore = 2, signal_fence = 3\<rparr>]\<rparr>) \<noteq> Blocks \<and>
   cpu_step busy
     ((started 3)\<lparr>images_in_flight := [3, VK_NULL_HANDLE, VK_NULL_HANDLE],
        current_frame := 1,
        pc := PC_WaitImageFence,
        image_index := 1,
        fence_signaled := [3 \<mapsto> False, 6 \<mapsto> True],
        pending := [\<lparr>wait_semaphore = 1, command_buffer = 0,
                     signal_semaphore = 2, signal_fence = 3\<rparr>]\<rparr>) \<noteq> Blocks \<and>
   images_in_flight (started 3) = replicate 3 VK_NULL_HANDLE"
proof (intro conjI)
  let ?s1 = "(started 3)\<lparr>images_in_flight := [3, VK_NULL_HANDLE, VK_NULL_HANDLE],
        current_frame := 1,
        fence_signaled := [3 \<mapsto> False, 6 \<mapsto> True],
        pending := [\<lparr>wait_semaphore = 1, command_buffer = 0,
                     signal_semaphore = 2, signal_fence = 3\<rparr>]\<rparr>"
  let ?s2 = "(started 3)\<lparr>images_in_flight := [3, VK_NULL_HANDLE, VK_NULL_HANDLE],
        current_frame := 1,
        pc := PC_WaitImageFence,
        image_index := 1,
        fence_signaled := [3 \<mapsto> False, 6 \<mapsto> True],
        pending := [\<lparr>wait_semaphore = 1, command_buffer = 0,
                     signal_semaphore = 2, signal_fence = 3\<rparr>]\<rparr>"
  have r1: "reach 3 ([] @ visited (frame_events VK_SUCCESS 0 VK_SUCCESS VK_SUCCESS) (started 3)) ?s1"
    by (rule run_reach_visited [OF reach_started run_first_frame])
  have p1: "pc ?s1 = PC_WaitSlotFence" "current_frame ?s1 = 1"
    by (simp_all add: started_def)
  from first_use_does_not_block [OF r1, of busy] visited_first_frame p1
  have "cpu_step busy ?s1 = Continues (?s1\<lparr>pc := PC_Acquire\<rparr>)" by simp
  then show "cpu_step busy ?s1 \<noteq> Blocks" by simp
  have r2: "reach 3 ([] @ visited second_acquired (started 3)) ?s2"
    by (rule run_reach_visited [OF reach_started run_second_acquired])
  have p2: "pc ?s2 = PC_WaitImageFence" "image_index ?s2 = 1"
    by simp_all
  from first_use_does_not_block [OF r2, of busy] visited_second_acquired p2
  have "cpu_step busy ?s2 = Continues (?s2\<lparr>pc := PC_MarkImage\<rparr>)" by simp
  then show "cpu_step busy ?s2 \<noteq> Blocks" by simp
  from first_use_does_not_block [OF reach_started, of 3 busy]
  show "images_in_flight (started 3) = replicate 3 VK_NULL_HANDLE" by simp
qed

text \<open>
  A fence created without \<open>VK_FENCE_CREATE_SIGNALED_BIT\<close> would block the first wait.
\<close>

lemma unsignaled_fence_blocks:
  "driver (vkWaitForFences (fst (vkCreateFence False s)) UINT64_MAX) (answer VK_SUCCESS i)
     (snd (vkCreateFence False s)) = Blocks"
  by (simp add: vkCreateFence_def answer_def)

end
